theory Spec2Isabelle
  imports Complex_Main
begin

section \<open>QuickMapMaker: binning detector time streams into a sky map\<close>

text \<open>
  A shallow embedding of \<^verbatim>\<open>notebooks/g3mapmaker.py\<close> (class \<^verbatim>\<open>QuickMapMaker\<close>).
  Python floats and numpy \<^verbatim>\<open>float64\<close> values are real numbers.  The rounding to
  binary64 is written out where a property depends on it: in the quotient
  \<^verbatim>\<open>int(xlen / res)\<close>, in \<^verbatim>\<open>np.linspace\<close> and the sum with the map centre, and in the
  remainder \<^verbatim>\<open>% 360\<close>.  Elsewhere (the quaternion algebra, the trigonometric functions, the
  sums of sample values) the arithmetic is exact; infinities, NaN and signed zeros are not
  values of the model.  The \<^verbatim>\<open>int64\<close> hit counters are \<^typ>\<open>int\<close>: a pixel would need
  \<open>2^63\<close> samples before wrapping.  The numpy, scipy and
  h5py functions the class calls are modelled from their documented behaviour, each
  under the name it has in the source.
\<close>

subsection \<open>Exceptions, frames\<close>

datatype py_error =
  KeyError | ValueError | ZeroDivisionError | OverflowError | IndexError | OSError

text \<open>Quaternions are rows of four floats.\<close>

type_synonym quat = "real \<times> real \<times> real \<times> real"

text \<open>The frame types of the streaming framework (\<^verbatim>\<open>core.G3FrameType\<close>).\<close>

datatype frame_type =
  Timepoint | Housekeeping | Observation | Scan | SkyMapFrame | InstrumentStatus
  | Wiring | Calibration | GcpSlow | PipelineInfo | EndProcessing

text \<open>
  The \<^verbatim>\<open>"focalplane"\<close> field is an HDF5 file held in memory.  The blob is described by
  what \<^verbatim>\<open>h5py\<close> reads from it: either opening it or reading the two columns raises
  (\<open>Malformed\<close> with the exception), or it yields the \<^verbatim>\<open>name\<close> column and the
  \<^verbatim>\<open>quat\<close> column.  The two columns are separate datasets and may differ in length.
\<close>

datatype h5_blob = Malformed py_error | FocalPlane "string list" "quat list"

text \<open>
  A frame is a typed dictionary.  The keys that \<^verbatim>\<open>Process\<close> reads are fields of the
  record (\<open>None\<close>: the key is absent, and \<^verbatim>\<open>frame[key]\<close> raises \<^verbatim>\<open>KeyError\<close>);
  \<open>signal\<close> lists the detector ids, each once, with their raw samples in the order
  of \<^verbatim>\<open>raw_signal.keys()\<close>; the scalar fields (\<^verbatim>\<open>compress_signal_<kid>_gain\<close> and
  \<^verbatim>\<open>..._offset\<close>) are a map from key to value.
\<close>

record frame =
  ftype :: frame_type
  focalplane :: "h5_blob option"
  signal :: "(string \<times> real list) list option"
  shared_boresight_radec :: "quat list option"
  scalars :: "string \<rightharpoonup> real"

subsection \<open>The accumulator\<close>

record QuickMapMaker =
  ra0 :: real
  dec0 :: real
  xlen :: real
  ylen :: real
  res :: real
  nx :: int
  ny :: int
  ra_edges :: "real list"
  dec_edges :: "real list"
  sky_map :: "real list list"
  hits_map :: "int list list"
  det_offset_dict :: "string \<rightharpoonup> quat"

text \<open>What a call of \<^verbatim>\<open>Process\<close> does besides changing the accumulator: it raises, or
  it returns a value (\<open>Some frame\<close>, or Python's \<^verbatim>\<open>None\<close> when no \<^verbatim>\<open>return\<close>
  statement is reached) and possibly shows a plot of a grid with its extent.\<close>

type_synonym plot = "real list list \<times> (real \<times> real \<times> real \<times> real)"

datatype result = Raised py_error | Returned "frame option" "plot option"

subsection \<open>numpy\<close>

text \<open>\<^verbatim>\<open>int(x)\<close> on a float truncates towards zero.\<close>

definition py_int :: "real \<Rightarrow> int" where
  "py_int x = (if 0 \<le> x then \<lfloor>x\<rfloor> else \<lceil>x\<rceil>)"

text \<open>
  Rounding a real number to binary64, to nearest with ties to even: \<open>e\<close> is the binary
  exponent (at least \<open>-1022\<close>, below which the subnormal numbers keep the spacing
  \<open>2^-1074\<close>) and \<open>u\<close> the spacing of the floats at that exponent.  A result beyond
  the largest float is an infinity in the code; \<^verbatim>\<open>float_overflows\<close> says when that
  happens.
\<close>

definition round_half_even :: "real \<Rightarrow> int" where
  "round_half_even y =
     (let f = \<lfloor>y\<rfloor>; d = y - of_int f
      in if d < 1 / 2 then f else if 1 / 2 < d then f + 1 else if even f then f else f + 1)"

definition round_float64 :: "real \<Rightarrow> real" where
  "round_float64 x =
     (if x = 0 then 0
      else let e = max \<lfloor>log 2 \<bar>x\<bar>\<rfloor> (- 1022);
               u = 2 powr (of_int e - 52)
           in u * of_int (round_half_even (x / u)))"

definition float_overflows :: "real \<Rightarrow> bool" where
  "float_overflows x = (2 ^ 1024 - 2 ^ 970 \<le> \<bar>x\<bar>)"

text \<open>
  \<^verbatim>\<open>np.linspace(start, stop, num)\<close>: \<open>num\<close> evenly spaced samples, both ends
  included; a negative \<open>num\<close> raises \<^verbatim>\<open>ValueError\<close>.  numpy computes
  \<^verbatim>\<open>delta = stop - start\<close>, \<^verbatim>\<open>step = delta / div\<close> with \<^verbatim>\<open>div = num - 1\<close>, then
  \<^verbatim>\<open>arange(num) * step + start\<close> (or \<^verbatim>\<open>arange(num) / div * delta + start\<close> when the step
  is zero, and \<^verbatim>\<open>arange(num) * delta + start\<close> when \<open>div\<close> is zero), and it overwrites the
  last sample with \<open>stop\<close> when there are at least two.  Every operation rounds.
\<close>

definition linspace :: "real \<Rightarrow> real \<Rightarrow> int \<Rightarrow> py_error + real list" where
  "linspace start stop num =
     (if num < 0 then Inl ValueError
      else
        let n = nat num; dv = n - 1;
            delta = round_float64 (stop - start);
            step = round_float64 (delta / real dv);
            y = (\<lambda>i. if dv = 0 then round_float64 (real i * delta)
                     else if step = 0 then round_float64 (round_float64 (real i / real dv) * delta)
                     else round_float64 (real i * step))
        in Inr (map (\<lambda>i. if 1 < n \<and> i = n - 1 then stop else round_float64 (y i + start))
                    [0..<n]))"

text \<open>\<^verbatim>\<open>np.zeros((rows, cols))\<close>; negative dimensions raise \<^verbatim>\<open>ValueError\<close>.\<close>

definition np_zeros :: "int \<Rightarrow> int \<Rightarrow> py_error + 'a::zero list list" where
  "np_zeros rows cols =
     (if rows < 0 \<or> cols < 0 then Inl ValueError
      else Inr (replicate (nat rows) (replicate (nat cols) 0)))"

text \<open>Elementwise \<^verbatim>\<open>+=\<close> of two grids of one shape.\<close>

definition add_grid :: "'a::plus list list \<Rightarrow> 'a list list \<Rightarrow> 'a list list" where
  "add_grid a b = map2 (map2 (+)) a b"

text \<open>\<^verbatim>\<open>hits.astype(int)\<close>.\<close>

definition astype_int :: "real list list \<Rightarrow> int list list" where
  "astype_int g = map (map py_int) g"

text \<open>\<^verbatim>\<open>np.degrees\<close>, \<^verbatim>\<open>np.arctan2\<close> and the float remainder \<^verbatim>\<open>%\<close>.  numpy takes the
  C remainder \<^verbatim>\<open>fmod(x, m)\<close>, which is exact and has the sign of \<open>x\<close>, and adds \<open>m\<close> to
  it when it is not zero and its sign differs from the sign of \<open>m\<close>; that sum is
  rounded.\<close>

definition degrees :: "real \<Rightarrow> real" where
  "degrees x = x * (180 / pi)"

definition arctan2 :: "real \<Rightarrow> real \<Rightarrow> real" where
  "arctan2 y x =
     (if 0 < x then arctan (y / x)
      else if x < 0 \<and> 0 \<le> y then arctan (y / x) + pi
      else if x < 0 then arctan (y / x) - pi
      else if 0 < y then pi / 2
      else if y < 0 then - (pi / 2)
      else 0)"

definition py_mod :: "real \<Rightarrow> real \<Rightarrow> real" where
  "py_mod x m =
     (let r = x - m * of_int (py_int (x / m))
      in if r \<noteq> 0 \<and> (m < 0) \<noteq> (r < 0) then round_float64 (r + m) else r)"

text \<open>
  \<^verbatim>\<open>np.histogram2d(x, y, bins=[xbins, ybins], weights=w)\<close> with explicit bin edges.
  numpy finds the bin of a value with \<^verbatim>\<open>searchsorted(edges, v, side='right')\<close>, the
  number of edges \<open>\<le> v\<close>, lowers that count by one for a value equal to the last edge,
  and keeps the counts \<open>1 .. len(edges) - 1\<close> (the others are the outlier bins, which
  are cut off the result).  Weights of another length than the samples raise
  \<^verbatim>\<open>ValueError\<close>, unless there is no sample: then the grid of zeros is returned.
\<close>

definition bin_index :: "real list \<Rightarrow> real \<Rightarrow> nat option" where
  "bin_index edges v =
     (let c = length (filter (\<lambda>e. e \<le> v) edges);
          c' = (if v = last edges then c - 1 else c)
      in if 1 \<le> c' \<and> c' + 1 \<le> length edges then Some (c' - 1) else None)"

definition hist_grid :: "(real \<times> real \<times> real) list \<Rightarrow> real list \<Rightarrow> real list \<Rightarrow> real list list" where
  "hist_grid samples xbins ybins =
     map (\<lambda>i. map (\<lambda>j. sum_list (map (\<lambda>(x, y, w). w)
                 (filter (\<lambda>(x, y, w). bin_index xbins x = Some i \<and> bin_index ybins y = Some j)
                         samples)))
               [0..<length ybins - 1])
         [0..<length xbins - 1]"

definition histogram2d ::
  "real list \<Rightarrow> real list \<Rightarrow> real list \<Rightarrow> real list \<Rightarrow> real list option
     \<Rightarrow> py_error + real list list" where
  "histogram2d xs ys xbins ybins weights =
     (if length xs \<noteq> length ys then Inl ValueError
      else if \<not> sorted xbins \<or> \<not> sorted ybins then Inl ValueError
      else if xbins = [] \<or> ybins = [] then Inl IndexError
      else (case weights of
              None \<Rightarrow> Inr (hist_grid (zip xs (zip ys (replicate (length xs) 1))) xbins ybins)
            | Some w \<Rightarrow>
                if xs \<noteq> [] \<and> length w \<noteq> length xs then Inl ValueError
                else Inr (hist_grid (zip xs (zip ys w)) xbins ybins)))"

subsection \<open>scipy rotations\<close>

text \<open>
  A \<^verbatim>\<open>Rotation\<close> holds a unit quaternion \<open>(x, y, z, w)\<close>, scalar last.
  \<^verbatim>\<open>R.from_quat\<close> normalises its argument and raises \<^verbatim>\<open>ValueError\<close> on a quaternion of
  norm zero; \<^verbatim>\<open>p * q\<close> is the Hamilton product, normalised again; \<^verbatim>\<open>apply\<close> multiplies
  the vector by the rotation matrix of the quaternion.
\<close>

definition quat_norm :: "quat \<Rightarrow> real" where
  "quat_norm q = (case q of (x, y, z, w) \<Rightarrow> sqrt (x * x + y * y + z * z + w * w))"

definition from_quat :: "quat \<Rightarrow> py_error + quat" where
  "from_quat q =
     (case q of (x, y, z, w) \<Rightarrow>
        if quat_norm q = 0 then Inl ValueError
        else Inr (x / quat_norm q, y / quat_norm q, z / quat_norm q, w / quat_norm q))"

fun from_quats :: "quat list \<Rightarrow> py_error + quat list" where
  "from_quats [] = Inr []"
| "from_quats (q # qs) =
     (case from_quat q of
        Inl e \<Rightarrow> Inl e
      | Inr r \<Rightarrow> (case from_quats qs of Inl e \<Rightarrow> Inl e | Inr rs \<Rightarrow> Inr (r # rs)))"

definition compose_quat :: "quat \<Rightarrow> quat \<Rightarrow> quat" where
  "compose_quat p q =
     (case p of (px, py, pz, pw) \<Rightarrow> case q of (qx, qy, qz, qw) \<Rightarrow>
        (pw * qx + qw * px + (py * qz - pz * qy),
         pw * qy + qw * py + (pz * qx - px * qz),
         pw * qz + qw * pz + (px * qy - py * qx),
         pw * qw - px * qx - py * qy - pz * qz))"

definition rot_mul :: "quat \<Rightarrow> quat \<Rightarrow> py_error + quat" where
  "rot_mul p q = from_quat (compose_quat p q)"

fun rot_mul_all :: "quat list \<Rightarrow> quat \<Rightarrow> py_error + quat list" where
  "rot_mul_all [] q = Inr []"
| "rot_mul_all (p # ps) q =
     (case rot_mul p q of
        Inl e \<Rightarrow> Inl e
      | Inr r \<Rightarrow> (case rot_mul_all ps q of Inl e \<Rightarrow> Inl e | Inr rs \<Rightarrow> Inr (r # rs)))"

definition rot_apply :: "quat \<Rightarrow> real \<times> real \<times> real \<Rightarrow> real \<times> real \<times> real" where
  "rot_apply r v =
     (case r of (x, y, z, w) \<Rightarrow> case v of (a, b, c) \<Rightarrow>
        ((x * x - y * y - z * z + w * w) * a + 2 * (x * y - z * w) * b + 2 * (x * z + y * w) * c,
         2 * (x * y + z * w) * a + (- (x * x) + y * y - z * z + w * w) * b + 2 * (y * z - x * w) * c,
         2 * (x * z - y * w) * a + 2 * (y * z + x * w) * b + (- (x * x) - y * y + z * z + w * w) * c))"

subsection \<open>Construction\<close>

text \<open>
  \<^verbatim>\<open>__init__\<close>.  A float division by zero raises \<^verbatim>\<open>ZeroDivisionError\<close>; a quotient that
  overflows is an infinity, on which \<^verbatim>\<open>int\<close> raises \<^verbatim>\<open>OverflowError\<close>.  The model has no
  bound on the size of an array: where numpy cannot allocate the edges or the grids,
  the code raises and the model returns the accumulator.
\<close>

definition init :: "real \<Rightarrow> real \<Rightarrow> real \<Rightarrow> real \<Rightarrow> real \<Rightarrow> py_error + QuickMapMaker" where
  "init ra0' dec0' xlen' ylen' res' =
     (if res' = 0 then Inl ZeroDivisionError
      else if float_overflows (xlen' / res') then Inl OverflowError
      else if float_overflows (ylen' / res') then Inl OverflowError
      else
        let nx' = py_int (round_float64 (xlen' / res'));
            ny' = py_int (round_float64 (ylen' / res'))
        in case linspace (round_float64 (- xlen' / 2)) (round_float64 (xlen' / 2)) (nx' + 1) of
             Inl e \<Rightarrow> Inl e
           | Inr re \<Rightarrow>
          (case linspace (round_float64 (- ylen' / 2)) (round_float64 (ylen' / 2)) (ny' + 1) of
             Inl e \<Rightarrow> Inl e
           | Inr de \<Rightarrow>
          (case np_zeros ny' nx' of
             Inl e \<Rightarrow> Inl e
           | Inr sky \<Rightarrow>
          (case np_zeros ny' nx' of
             Inl e \<Rightarrow> Inl e
           | Inr hits \<Rightarrow>
             Inr \<lparr> ra0 = ra0', dec0 = dec0', xlen = xlen', ylen = ylen', res = res',
                   nx = nx', ny = ny',
                   ra_edges = map (\<lambda>e. round_float64 (e + ra0')) re,
                   dec_edges = map (\<lambda>e. round_float64 (e + dec0')) de,
                   sky_map = sky, hits_map = hits,
                   det_offset_dict = Map.empty \<rparr>))))"

subsection \<open>Process\<close>

text \<open>The dictionary comprehension over \<^verbatim>\<open>zip(names, quats)\<close>: the shorter column
  decides how many pairs there are, and a later pair overwrites an earlier one with the
  same name.\<close>

definition dict_of_zip :: "string list \<Rightarrow> quat list \<Rightarrow> (string \<rightharpoonup> quat)" where
  "dict_of_zip names quats = fold (\<lambda>(name, q) m. m(name \<mapsto> q)) (zip names quats) Map.empty"

text \<open>Lines 85 to 93: the affine decompression of one detector's samples.  (With a gain
  of zero numpy yields infinities or NaN, which the reals do not have; the model's value
  there is HOL's \<open>r / 0 = 0\<close>.)\<close>

definition reconstruct :: "frame \<Rightarrow> string \<Rightarrow> real list \<Rightarrow> real list" where
  "reconstruct f kid y_raw =
     (let gain_key = ''compress_signal_'' @ kid @ ''_gain'';
          offset_key = ''compress_signal_'' @ kid @ ''_offset''
      in case scalars f gain_key of
           None \<Rightarrow> y_raw
         | Some gain \<Rightarrow>
             (case scalars f offset_key of
                None \<Rightarrow> y_raw
              | Some offset \<Rightarrow> map (\<lambda>r. r / gain + offset) y_raw))"

text \<open>Lines 97 to 103: the sky angles \<open>(ra_det, dec_det)\<close> of one detector, one pair per
  boresight sample.\<close>

definition z_axis :: "real \<times> real \<times> real" where
  "z_axis = (0, 0, 1)"

definition radec :: "real \<times> real \<times> real \<Rightarrow> real \<times> real" where
  "radec v = (case v of (vx, vy, vz) \<Rightarrow> (py_mod (degrees (arctan2 vy vx)) 360, degrees (arcsin vz)))"

definition detector_radec :: "quat list \<Rightarrow> quat \<Rightarrow> py_error + (real \<times> real) list" where
  "detector_radec boresight_r det_q =
     (case from_quat det_q of
        Inl e \<Rightarrow> Inl e
      | Inr det_r \<Rightarrow>
          (case rot_mul_all boresight_r det_r of
             Inl e \<Rightarrow> Inl e
           | Inr corrected_r \<Rightarrow> Inr (map (\<lambda>r. radec (rot_apply r z_axis)) corrected_r)))"

text \<open>One iteration of the loop over the detectors (lines 84 to 114).  The two grids
  are updated one after the other, so an exception leaves what was added before it.\<close>

definition bin_detector ::
  "QuickMapMaker \<Rightarrow> frame \<Rightarrow> quat list \<Rightarrow> string \<Rightarrow> real list \<Rightarrow> QuickMapMaker \<times> py_error option" where
  "bin_detector acc f boresight_r kid y_raw =
     (let y = reconstruct f kid y_raw
      in case det_offset_dict acc kid of
           None \<Rightarrow> (acc, Some KeyError)
         | Some det_q \<Rightarrow>
        (case detector_radec boresight_r det_q of
           Inl e \<Rightarrow> (acc, Some e)
         | Inr pts \<Rightarrow>
        (let ra_det = map fst pts; dec_det = map snd pts
         in case histogram2d dec_det ra_det (dec_edges acc) (ra_edges acc) (Some y) of
              Inl e \<Rightarrow> (acc, Some e)
            | Inr hist \<Rightarrow>
           (let acc1 = acc\<lparr>sky_map := add_grid (sky_map acc) hist\<rparr>
            in case histogram2d dec_det ra_det (dec_edges acc1) (ra_edges acc1) None of
                 Inl e \<Rightarrow> (acc1, Some e)
               | Inr hits \<Rightarrow>
                   (acc1\<lparr>hits_map := add_grid (hits_map acc1) (astype_int hits)\<rparr>, None)))))"

fun scan_loop ::
  "QuickMapMaker \<Rightarrow> frame \<Rightarrow> quat list \<Rightarrow> (string \<times> real list) list \<Rightarrow> QuickMapMaker \<times> py_error option" where
  "scan_loop acc f boresight_r [] = (acc, None)"
| "scan_loop acc f boresight_r ((kid, y_raw) # kids) =
     (case bin_detector acc f boresight_r kid y_raw of
        (acc', Some e) \<Rightarrow> (acc', Some e)
      | (acc', None) \<Rightarrow> scan_loop acc' f boresight_r kids)"

text \<open>Lines 124 to 126: the grid that is plotted at the end of the stream.\<close>

definition final_map :: "QuickMapMaker \<Rightarrow> real list list" where
  "final_map acc = map2 (map2 (\<lambda>h s. if 0 < h then s else 0)) (hits_map acc) (sky_map acc)"

text \<open>The boresight quaternions arrive scalar first; \<^verbatim>\<open>boresight_q[:, [1,2,3,0]]\<close> moves
  the scalar to the end.\<close>

definition scalar_last :: "quat \<Rightarrow> quat" where
  "scalar_last q = (case q of (q0, q1, q2, q3) \<Rightarrow> (q1, q2, q3, q0))"

definition Process :: "QuickMapMaker \<Rightarrow> frame \<Rightarrow> QuickMapMaker \<times> result" where
  "Process acc f =
     (if ftype f = Calibration then
        (case focalplane f of
           None \<Rightarrow> (acc, Raised KeyError)
         | Some (Malformed e) \<Rightarrow> (acc, Raised e)
         | Some (FocalPlane names quats) \<Rightarrow>
             (acc\<lparr>det_offset_dict := dict_of_zip names quats\<rparr>, Returned (Some f) None))
      else if ftype f = Scan then
        (case signal f of
           None \<Rightarrow> (acc, Raised KeyError)
         | Some raw_signal \<Rightarrow>
        (case shared_boresight_radec f of
           None \<Rightarrow> (acc, Raised KeyError)
         | Some boresight_q \<Rightarrow>
        (case from_quats (map scalar_last boresight_q) of
           Inl e \<Rightarrow> (acc, Raised e)
         | Inr boresight_r \<Rightarrow>
        (case scan_loop acc f boresight_r raw_signal of
           (acc', Some e) \<Rightarrow> (acc', Raised e)
         | (acc', None) \<Rightarrow> (acc', Returned (Some f) None)))))
      else if ftype f = EndProcessing then
        (if ra_edges acc = [] \<or> dec_edges acc = [] then (acc, Raised IndexError)
         else (acc, Returned (Some f)
                 (Some (final_map acc,
                        (hd (ra_edges acc), last (ra_edges acc),
                         hd (dec_edges acc), last (dec_edges acc))))))
      else (acc, Returned None None))"

subsection \<open>Predicates used to state the properties\<close>

text \<open>The binning rule in words: a value \<open>v\<close> falls in bin \<open>i\<close> iff
  \<open>edges[i] \<le> v < edges[i+1]\<close>, the last bin being closed on the right.\<close>

definition in_bin :: "real list \<Rightarrow> nat \<Rightarrow> real \<Rightarrow> bool" where
  "in_bin edges i v =
     (i + 1 < length edges \<and> edges ! i \<le> v
      \<and> (v < edges ! (i + 1) \<or> (i + 2 = length edges \<and> v = edges ! (i + 1))))"

text \<open>A value lies within the grid along one axis when it falls in one of its bins.\<close>

definition in_grid :: "real list \<Rightarrow> real \<Rightarrow> bool" where
  "in_grid edges v = list_ex (\<lambda>i. in_bin edges i v) [0..<length edges - 1]"

text \<open>The shape of a two-dimensional array, and \<^verbatim>\<open>np.sum\<close> over all its entries.\<close>

definition grid_shape :: "'a list list \<Rightarrow> nat \<Rightarrow> nat \<Rightarrow> bool" where
  "grid_shape g rows cols = (length g = rows \<and> list_all (\<lambda>r. length r = cols) g)"

definition sum_grid :: "'a::comm_monoid_add list list \<Rightarrow> 'a" where
  "sum_grid g = sum_list (map sum_list g)"

text \<open>The invariant that \<^verbatim>\<open>__init__\<close> establishes and \<^verbatim>\<open>Process\<close> keeps: there is at
  least one edge on each axis and both grids have one row per declination bin and one
  column per right-ascension bin.\<close>

definition acc_ok :: "QuickMapMaker \<Rightarrow> bool" where
  "acc_ok acc =
     (ra_edges acc \<noteq> [] \<and> dec_edges acc \<noteq> []
      \<and> grid_shape (sky_map acc) (length (dec_edges acc) - 1) (length (ra_edges acc) - 1)
      \<and> grid_shape (hits_map acc) (length (dec_edges acc) - 1) (length (ra_edges acc) - 1))"

text \<open>The plot a call has shown, if any.\<close>

definition plot_of :: "result \<Rightarrow> plot option" where
  "plot_of r = (case r of Raised e \<Rightarrow> None | Returned v p \<Rightarrow> p)"

text \<open>The samples of one detector as the loop body bins them: the triples
  \<open>(dec, ra, y)\<close> of the sky angles and the reconstructed value, one per boresight
  sample (none when the loop body raises before it bins).\<close>

definition detector_samples ::
  "(string \<rightharpoonup> quat) \<Rightarrow> frame \<Rightarrow> quat list \<Rightarrow> string \<times> real list \<Rightarrow> (real \<times> real \<times> real) list" where
  "detector_samples dict f boresight_r kr =
     (case kr of (kid, y_raw) \<Rightarrow>
        (case dict kid of
           None \<Rightarrow> []
         | Some det_q \<Rightarrow>
             (case detector_radec boresight_r det_q of
                Inl e \<Rightarrow> []
              | Inr pts \<Rightarrow> zip (map snd pts) (zip (map fst pts) (reconstruct f kid y_raw)))))"

text \<open>A sample is in pixel \<open>(i, j)\<close> when its declination falls in bin \<open>i\<close> and its
  right ascension in bin \<open>j\<close>; it is in the map when it is in a bin on both axes.\<close>

definition in_pixel :: "real list \<Rightarrow> real list \<Rightarrow> nat \<Rightarrow> nat \<Rightarrow> real \<times> real \<times> real \<Rightarrow> bool" where
  "in_pixel dec_bins ra_bins i j s = (case s of (dec, ra, y) \<Rightarrow> in_bin dec_bins i dec \<and> in_bin ra_bins j ra)"

definition in_map :: "real list \<Rightarrow> real list \<Rightarrow> real \<times> real \<times> real \<Rightarrow> bool" where
  "in_map dec_bins ra_bins s = (case s of (dec, ra, y) \<Rightarrow> in_grid dec_bins dec \<and> in_grid ra_bins ra)"

definition weight :: "real \<times> real \<times> real \<Rightarrow> real" where
  "weight s = (case s of (dec, ra, y) \<Rightarrow> y)"

subsection \<open>A concrete run\<close>

text \<open>A map of \<open>2 \<times> 2\<close> pixels: centre \<open>(0, 0)\<close>, extent \<open>1 \<times> 1\<close>, resolution
  \<open>1/2\<close>, as \<^verbatim>\<open>QuickMapMaker(0, 0, 1, 1, 0.5)\<close> builds it.\<close>

definition acc0 :: QuickMapMaker where
  "acc0 = \<lparr> ra0 = 0, dec0 = 0, xlen = 1, ylen = 1, res = 1 / 2, nx = 2, ny = 2,
     ra_edges = [- (1 / 2), 0, 1 / 2], dec_edges = [- (1 / 2), 0, 1 / 2],
     sky_map = [[0, 0], [0, 0]], hits_map = [[0, 0], [0, 0]], det_offset_dict = Map.empty \<rparr>"

text \<open>After a calibration frame that knows detector \<open>a\<close> only, with no offset.\<close>

definition acc_cal :: QuickMapMaker where
  "acc_cal = acc0\<lparr>det_offset_dict := [''a'' \<mapsto> (0, 0, 0, 1)]\<rparr>"

text \<open>After one sample of value \<open>3\<close> in pixel \<open>(1, 1)\<close>.\<close>

definition acc_hit :: QuickMapMaker where
  "acc_hit = acc_cal\<lparr>sky_map := [[0, 0], [0, 3]], hits_map := [[0, 0], [0, 1]]\<rparr>"

text \<open>Two boresight samples, scalar first: the first turns the z axis onto the x axis
  (\<open>ra = 0\<close>, \<open>dec = 0\<close>), the second is the identity (\<open>dec = 90\<close>, outside the map).\<close>

definition boresight2 :: "quat list" where
  "boresight2 = [(1 / 2, 1 / 2, 1 / 2, 1 / 2), (1, 0, 0, 0)]"

text \<open>A scan frame with these boresight samples, the given signal mapping and no
  compression parameters.\<close>

definition scan_of :: "(string \<times> real list) list \<Rightarrow> frame" where
  "scan_of sig = \<lparr> ftype = Scan, focalplane = None, signal = Some sig,
      shared_boresight_radec = Some boresight2, scalars = Map.empty \<rparr>"

text \<open>A state with two hits and a summed signal of \<open>2\<close> in pixel \<open>(1, 1)\<close>.\<close>

definition acc_two :: QuickMapMaker where
  "acc_two = acc_hit\<lparr>sky_map := [[0, 0], [0, 2]], hits_map := [[0, 0], [0, 2]]\<rparr>"

text \<open>A frame of a given type with no field, and a calibration frame with a given
  blob.\<close>

definition frame_of :: "frame_type \<Rightarrow> frame" where
  "frame_of t = \<lparr> ftype = t, focalplane = None, signal = None,
      shared_boresight_radec = None, scalars = Map.empty \<rparr>"

definition cal_of :: "h5_blob \<Rightarrow> frame" where
  "cal_of blob = \<lparr> ftype = Calibration, focalplane = Some blob, signal = None,
      shared_boresight_radec = None, scalars = Map.empty \<rparr>"

text \<open>
  The rotation that a quaternion \<open>q = w + x i + y j + z k\<close>, written scalar first, stands
  for: \<open>v \<mapsto> q v q\<^sup>-\<^sup>1\<close>, with the Hamilton product and the vector \<open>v\<close> taken as the
  quaternion \<open>(0, v)\<close>.  A detector offset is stored vector first; \<open>scalar_first\<close>
  writes it scalar first.
\<close>

definition qmul :: "quat \<Rightarrow> quat \<Rightarrow> quat" where
  "qmul p q =
     (case p of (a1, b1, c1, d1) \<Rightarrow> case q of (a2, b2, c2, d2) \<Rightarrow>
        (a1 * a2 - b1 * b2 - c1 * c2 - d1 * d2,
         a1 * b2 + b1 * a2 + c1 * d2 - d1 * c2,
         a1 * c2 - b1 * d2 + c1 * a2 + d1 * b2,
         a1 * d2 + b1 * c2 - c1 * b2 + d1 * a2))"

definition quat_rotate :: "quat \<Rightarrow> real \<times> real \<times> real \<Rightarrow> real \<times> real \<times> real" where
  "quat_rotate q v =
     (case q of (w, x, y, z) \<Rightarrow> case v of (a, b, c) \<Rightarrow>
        (case qmul (qmul q (0, a, b, c)) (w, - x, - y, - z) of
           (s, a', b', c') \<Rightarrow>
             (a' / (w * w + x * x + y * y + z * z),
              b' / (w * w + x * x + y * y + z * z),
              c' / (w * w + x * x + y * y + z * z))))"

definition scalar_first :: "quat \<Rightarrow> quat" where
  "scalar_first q = (case q of (x, y, z, w) \<Rightarrow> (w, x, y, z))"

text \<open>The conversion to sky angles in words: \<open>ra\<close> is \<open>atan2(vy, vx)\<close> in degrees, a
  negative angle being raised by \<open>360\<close> (a float sum, so rounded), and \<open>dec\<close> is
  \<open>asin(vz)\<close> in degrees.\<close>

definition wrap360 :: "real \<Rightarrow> real" where
  "wrap360 a = (if a < 0 then round_float64 (a + 360) else a)"

definition spec_radec :: "real \<times> real \<times> real \<Rightarrow> real \<times> real" where
  "spec_radec v = (case v of (vx, vy, vz) \<Rightarrow> (wrap360 (degrees (arctan2 vy vx)), degrees (arcsin vz)))"

text \<open>The pointing of a detector with offset \<open>det_q\<close> (vector first) at a boresight
  sample \<open>q\<close> (scalar first): the offset rotation is applied to \<open>(0, 0, 1)\<close>, then the
  boresight rotation, and the vector is converted to sky angles \<open>(ra, dec)\<close>.\<close>

definition pointing :: "quat \<Rightarrow> quat \<Rightarrow> real \<times> real" where
  "pointing q det_q = spec_radec ((quat_rotate q \<circ> quat_rotate (scalar_first det_q)) z_axis)"

text \<open>An accumulator whose only detector is offset by half a turn about the x axis (the
  quaternion is not normalised), a scan frame whose boresight makes an angle just below
  zero, and two scan frames with no detector and no usable boresight.\<close>

definition acc_flip :: QuickMapMaker where
  "acc_flip = acc0\<lparr>det_offset_dict := [''a'' \<mapsto> (2, 0, 0, 0)]\<rparr>"

definition seam_boresight :: "quat list" where
  "seam_boresight = [(1, 1 / 2 ^ 100, 1, 0)]"

definition empty_scan_no_boresight :: frame where
  "empty_scan_no_boresight = \<lparr> ftype = Scan, focalplane = None, signal = Some [],
      shared_boresight_radec = None, scalars = Map.empty \<rparr>"

definition empty_scan_zero_boresight :: frame where
  "empty_scan_zero_boresight = \<lparr> ftype = Scan, focalplane = None, signal = Some [],
      shared_boresight_radec = Some [(0, 0, 0, 0)], scalars = Map.empty \<rparr>"

section \<open>Properties\<close>

subsection \<open>Rounding to binary64\<close>

lemma round_half_even_of_int: "round_half_even (of_int n) = n"
  by (simp add: round_half_even_def)

lemma round_half_even_ge: "of_int a \<le> y \<Longrightarrow> a \<le> round_half_even y"
proof -
  assume "of_int a \<le> y"
  then have "a \<le> \<lfloor>y\<rfloor>" by (simp add: le_floor_iff)
  then show ?thesis by (auto simp: round_half_even_def Let_def)
qed

lemma round_half_even_le: "y \<le> of_int b \<Longrightarrow> round_half_even y \<le> b"
proof (cases "y = of_int b")
  case True
  then show ?thesis by (simp add: round_half_even_of_int)
next
  case False
  assume "y \<le> of_int b"
  with False have "y < of_int b" by simp
  then have "\<lfloor>y\<rfloor> < b" by (simp add: floor_less_iff)
  then show ?thesis by (auto simp: round_half_even_def Let_def)
qed

lemma round_float64_between:
  assumes "x \<noteq> 0" and "max \<lfloor>log 2 \<bar>x\<bar>\<rfloor> (- 1022) = e"
    and "of_int a * 2 powr (of_int e - 52) \<le> x" and "x \<le> of_int b * 2 powr (of_int e - 52)"
  shows "of_int a * 2 powr (of_int e - 52) \<le> round_float64 x
       \<and> round_float64 x \<le> of_int b * 2 powr (of_int e - 52)"
proof -
  define u :: real where "u = 2 powr (of_int e - 52)"
  have u: "0 < u" by (simp add: u_def)
  have fl: "round_float64 x = u * of_int (round_half_even (x / u))"
    using assms(1,2) by (simp add: round_float64_def u_def Let_def)
  from assms(3) u have "of_int a \<le> x / u" by (simp add: u_def [symmetric] pos_le_divide_eq)
  then have "a \<le> round_half_even (x / u)" by (rule round_half_even_ge)
  then have lo: "of_int a * u \<le> u * of_int (round_half_even (x / u))"
    using u by (simp add: mult.commute)
  from assms(4) u have "x / u \<le> of_int b" by (simp add: u_def [symmetric] pos_divide_le_eq)
  then have "round_half_even (x / u) \<le> b" by (rule round_half_even_le)
  then have hi: "u * of_int (round_half_even (x / u)) \<le> of_int b * u"
    using u by (simp add: mult.commute)
  from lo hi show ?thesis by (simp add: fl u_def [symmetric])
qed

lemma exponent_eq:
  assumes "2 powr of_int e \<le> x" and "x < 2 powr (of_int e + 1)" and "- 1022 \<le> e"
  shows "max \<lfloor>log 2 \<bar>x\<bar>\<rfloor> (- 1022) = e"
proof -
  have "0 < (2::real) powr of_int e" by simp
  with assms(1) have "0 < x" by linarith
  then have "\<lfloor>log 2 \<bar>x\<bar>\<rfloor> = e"
    using assms(1,2) by (simp add: floor_log_eq_powr_iff)
  with assms(3) show ?thesis by simp
qed

lemma fl_high: "256 \<le> y \<Longrightarrow> y \<le> 360 \<Longrightarrow> 256 \<le> round_float64 y \<and> round_float64 y \<le> 360"
proof -
  assume y: "256 \<le> y" "y \<le> 360"
  have e: "max \<lfloor>log 2 \<bar>y\<bar>\<rfloor> (- 1022) = 8"
    using y by (intro exponent_eq) simp_all
  have "of_int (256 * 2 ^ 44) * 2 powr (of_int 8 - 52) \<le> round_float64 y
       \<and> round_float64 y \<le> of_int (360 * 2 ^ 44) * 2 powr (of_int 8 - 52)"
    using y by (intro round_float64_between e) (simp_all add: powr_neg_numeral)
  then show ?thesis by (simp add: powr_neg_numeral)
qed

lemma fl_low: "180 \<le> y \<Longrightarrow> y < 256 \<Longrightarrow> 180 \<le> round_float64 y \<and> round_float64 y \<le> 256"
proof -
  assume y: "180 \<le> y" "y < 256"
  have e: "max \<lfloor>log 2 \<bar>y\<bar>\<rfloor> (- 1022) = 7"
    using y by (intro exponent_eq) simp_all
  have "of_int (180 * 2 ^ 45) * 2 powr (of_int 7 - 52) \<le> round_float64 y
       \<and> round_float64 y \<le> of_int (256 * 2 ^ 45) * 2 powr (of_int 7 - 52)"
    using y by (intro round_float64_between e) (simp_all add: powr_neg_numeral)
  then show ?thesis by (simp add: powr_neg_numeral)
qed

lemma round_half_even_upper:
  assumes "1 / 2 \<le> d" and "d < 1" and "odd n"
  shows "round_half_even (of_int n + d) = n + 1"
proof -
  have f: "\<lfloor>of_int n + d\<rfloor> = n"
    using assms(1,2) by (intro floor_unique) simp_all
  show ?thesis
    using assms unfolding round_half_even_def f Let_def by simp
qed

lemma fl_360_tiny:
  assumes "- (1 / 2 ^ 45) \<le> a" and "a < 0"
  shows "round_float64 (a + 360) = 360"
proof -
  have y: "256 \<le> a + 360" "a + 360 < 512" "a + 360 \<noteq> 0"
    using assms by (simp_all add: field_simps)
  have e: "max \<lfloor>log 2 \<bar>a + 360\<bar>\<rfloor> (- 1022) = 8"
    using y by (intro exponent_eq) simp_all
  have fl: "round_float64 (a + 360) = (1 / 2 ^ 44) * of_int (round_half_even ((a + 360) * 2 ^ 44))"
    using y(3) e by (simp add: round_float64_def Let_def powr_neg_numeral)
  define t where "t = 1 + a * 2 ^ 44"
  have t: "1 / 2 \<le> t" "t < 1" using assms by (simp_all add: t_def field_simps)
  have arg: "(a + 360) * 2 ^ 44 = of_int (360 * 2 ^ 44 - 1) + t"
    by (simp add: t_def algebra_simps)
  have odd: "odd (360 * 2 ^ 44 - 1 :: int)" by simp
  have "round_half_even ((a + 360) * 2 ^ 44) = (360 * 2 ^ 44 - 1) + 1"
    unfolding arg by (rule round_half_even_upper [OF t odd])
  then show ?thesis by (simp add: fl)
qed

lemma arctan_le_self: "0 \<le> x \<Longrightarrow> arctan x \<le> x"
proof -
  assume x: "0 \<le> x"
  have "arctan x - x \<le> arctan 0 - 0"
  proof (rule DERIV_nonpos_imp_nonincreasing [of 0 x "\<lambda>t. arctan t - t"])
    show "0 \<le> x" by (fact x)
  next
    fix t :: real
    have "DERIV (\<lambda>t. arctan t - t) t :> inverse (1 + t\<^sup>2) - 1"
      by (auto intro!: derivative_eq_intros)
    moreover have "0 < 1 + t\<^sup>2" by (simp add: add_pos_nonneg)
    then have "inverse (1 + t\<^sup>2) - 1 \<le> 0"
      by (simp add: inverse_eq_divide pos_divide_le_eq)
    ultimately show "\<exists>y. DERIV (\<lambda>t. arctan t - t) t :> y \<and> y \<le> 0" by blast
  qed
  then show ?thesis by simp
qed

subsection \<open>Binning\<close>

lemma sorted_count_le:
  fixes xs :: "real list"
  shows "sorted xs \<Longrightarrow> k < length xs \<Longrightarrow> (xs ! k \<le> v) = (k < length (filter (\<lambda>e. e \<le> v) xs))"
proof (induction xs arbitrary: k)
  case Nil
  then show ?case by simp
next
  case (Cons x xs)
  show ?case
  proof (cases "x \<le> v")
    case True
    with Cons show ?thesis by (cases k) auto
  next
    case False
    with Cons.prems have all: "\<forall>e\<in>set (x # xs). \<not> e \<le> v" by auto
    then have "filter (\<lambda>e. e \<le> v) (x # xs) = []"
      by (auto simp: filter_empty_conv)
    moreover from all Cons.prems(2) have "\<not> (x # xs) ! k \<le> v"
      using nth_mem by blast
    ultimately show ?thesis by simp
  qed
qed

lemma bin_index_in_bin:
  assumes "sorted edges"
  shows "(bin_index edges v = Some i) = in_bin edges i v"
proof (cases "edges = []")
  case True
  then show ?thesis by (simp add: bin_index_def in_bin_def)
next
  case False
  define n where "n = length edges"
  define c where "c = length (filter (\<lambda>e. e \<le> v) edges)"
  have n: "0 < n" using False by (simp add: n_def)
  have cn: "c \<le> n" by (simp add: c_def n_def)
  have cnt: "\<And>k. k < n \<Longrightarrow> (edges ! k \<le> v) = (k < c)"
    using sorted_count_le [OF assms] by (simp add: n_def c_def)
  have lst: "last edges = edges ! (n - 1)"
    using False by (simp add: last_conv_nth n_def)
  have bi0: "bin_index edges v =
      (if 1 \<le> (if v = last edges then c - 1 else c) \<and> (if v = last edges then c - 1 else c) + 1 \<le> n
       then Some ((if v = last edges then c - 1 else c) - 1) else None)"
    by (simp add: bin_index_def c_def n_def Let_def)
  show ?thesis
  proof (cases "v = last edges")
    case True
    then have "edges ! (n - 1) \<le> v" by (simp add: lst)
    with cnt [of "n - 1"] n have "n - 1 < c" by simp
    with cn have c: "c = n" by simp
    have "bin_index edges v = (if 2 \<le> n then Some (n - 2) else None)"
      using n by (auto simp: bi0 True [symmetric] c)
    then have bi: "(bin_index edges v = Some i) = (i + 2 = n)"
      by auto
    have "in_bin edges i v = (i + 2 = n)"
    proof
      assume ib: "in_bin edges i v"
      then have i: "i + 1 < n" by (simp add: in_bin_def n_def)
      from i cnt [of "i + 1"] c have "edges ! (i + 1) \<le> v" by simp
      with ib show "i + 2 = n" by (auto simp: in_bin_def n_def)
    next
      assume i: "i + 2 = n"
      then have "i < n" "i < c" using c by simp_all
      with cnt [of i] have "edges ! i \<le> v" by simp
      moreover from i have "n - 1 = i + 1" by simp
      ultimately show "in_bin edges i v"
        using i True lst by (simp add: in_bin_def n_def [symmetric])
    qed
    with bi show ?thesis by simp
  next
    case neq: False
    have bi: "(bin_index edges v = Some i) = (c = i + 1 \<and> i + 2 \<le> n)"
      using neq by (auto simp: bi0)
    have "in_bin edges i v = (c = i + 1 \<and> i + 2 \<le> n)"
    proof
      assume ib: "in_bin edges i v"
      then have i: "i + 1 < n" and lo: "edges ! i \<le> v" by (simp_all add: in_bin_def n_def)
      from ib neq lst have hi: "v < edges ! (i + 1)"
        by (auto simp: in_bin_def n_def [symmetric])
      from lo cnt [of i] i have "i < c" by simp
      moreover from hi cnt [of "i + 1"] i have "\<not> i + 1 < c" by simp
      ultimately show "c = i + 1 \<and> i + 2 \<le> n" using i by simp
    next
      assume h: "c = i + 1 \<and> i + 2 \<le> n"
      then have "i < n" "i + 1 < n" "i < c" "\<not> i + 1 < c" by simp_all
      with cnt [of i] cnt [of "i + 1"] show "in_bin edges i v"
        by (simp add: in_bin_def n_def [symmetric])
    qed
    with bi show ?thesis by simp
  qed
qed

lemma bin_index_bound: "bin_index edges v = Some i \<Longrightarrow> i < length edges - 1"
  by (auto simp: bin_index_def Let_def split: if_splits)

lemma in_grid_bin_index:
  assumes "sorted edges"
  shows "in_grid edges v = (bin_index edges v \<noteq> None)"
proof
  assume "in_grid edges v"
  then obtain i where "in_bin edges i v" by (auto simp: in_grid_def list_ex_iff)
  with assms show "bin_index edges v \<noteq> None" by (simp add: bin_index_in_bin [symmetric])
next
  assume "bin_index edges v \<noteq> None"
  then obtain i where i: "bin_index edges v = Some i" by auto
  with assms have "in_bin edges i v" by (simp add: bin_index_in_bin)
  with bin_index_bound [OF i] show "in_grid edges v"
    by (auto simp: in_grid_def list_ex_iff)
qed

lemma in_grid_interval:
  assumes "sorted edges" and "2 \<le> length edges"
  shows "in_grid edges v = (hd edges \<le> v \<and> v \<le> last edges)"
proof -
  define n where "n = length edges"
  define c where "c = length (filter (\<lambda>e. e \<le> v) edges)"
  have n: "2 \<le> n" using assms(2) by (simp add: n_def)
  have ne: "edges \<noteq> []" using assms(2) by auto
  have cn: "c \<le> n" by (simp add: c_def n_def)
  have cnt: "\<And>k. k < n \<Longrightarrow> (edges ! k \<le> v) = (k < c)"
    using sorted_count_le [OF assms(1)] by (simp add: n_def c_def)
  have lst: "last edges = edges ! (n - 1)"
    using ne by (simp add: last_conv_nth n_def)
  have hd0: "hd edges = edges ! 0"
    using ne by (simp add: hd_conv_nth)
  have lo: "(hd edges \<le> v) = (0 < c)"
    using cnt [of 0] n by (simp add: hd0)
  have bi0: "bin_index edges v =
      (if 1 \<le> (if v = last edges then c - 1 else c) \<and> (if v = last edges then c - 1 else c) + 1 \<le> n
       then Some ((if v = last edges then c - 1 else c) - 1) else None)"
    by (simp add: bin_index_def c_def n_def Let_def)
  show ?thesis
  proof (cases "v = last edges")
    case True
    then have "edges ! (n - 1) \<le> v" by (simp add: lst)
    with cnt [of "n - 1"] n have "n - 1 < c" by simp
    with cn have c: "c = n" by simp
    have "bin_index edges v = Some (n - 2)"
      using n by (auto simp: bi0 True [symmetric] c)
    moreover have "hd edges \<le> v" using lo c n by simp
    ultimately show ?thesis
      using True by (simp add: in_grid_bin_index [OF assms(1)])
  next
    case False
    have "(v \<le> last edges) = (c < n)"
    proof
      assume "v \<le> last edges"
      with False have "\<not> edges ! (n - 1) \<le> v" by (simp add: lst)
      with cnt [of "n - 1"] n have "\<not> n - 1 < c" by simp
      then show "c < n" using n by simp
    next
      assume "c < n"
      then have "\<not> n - 1 < c" by simp
      with cnt [of "n - 1"] n have "\<not> edges ! (n - 1) \<le> v" by simp
      then show "v \<le> last edges" by (simp add: lst)
    qed
    with False lo show ?thesis
      by (auto simp: in_grid_bin_index [OF assms(1)] bi0)
  qed
qed

subsection \<open>Grids\<close>

lemma grid_shape_nth: "grid_shape g r c \<Longrightarrow> i < r \<Longrightarrow> length (g ! i) = c"
  by (simp add: grid_shape_def list_all_length)

lemma grid_shape_length: "grid_shape g r c \<Longrightarrow> length g = r"
  by (simp add: grid_shape_def)

lemma add_grid_shape:
  "grid_shape a r c \<Longrightarrow> grid_shape b r c \<Longrightarrow> grid_shape (add_grid a b) r c"
  by (simp add: grid_shape_def add_grid_def list_all_length)

lemma add_grid_nth:
  "grid_shape a r c \<Longrightarrow> grid_shape b r c \<Longrightarrow> i < r \<Longrightarrow> j < c
     \<Longrightarrow> add_grid a b ! i ! j = a ! i ! j + b ! i ! j"
  by (simp add: grid_shape_def add_grid_def list_all_length)

lemma sum_list_map2_add:
  fixes xs :: "'a::comm_monoid_add list"
  shows "length xs = length ys \<Longrightarrow> sum_list (map2 (+) xs ys) = sum_list xs + sum_list ys"
  by (induction xs ys rule: list_induct2) (simp_all add: ac_simps)

lemma sum_grid_add_aux:
  fixes a :: "'a::comm_monoid_add list list"
  shows "length a = length b \<Longrightarrow> \<forall>i<length a. length (a ! i) = length (b ! i)
     \<Longrightarrow> sum_grid (add_grid a b) = sum_grid a + sum_grid b"
proof (induction a b rule: list_induct2)
  case Nil
  then show ?case by (simp add: sum_grid_def add_grid_def)
next
  case (Cons x xs y ys)
  from Cons.prems have "length x = length y" by auto
  moreover from Cons.prems have "\<forall>i<length xs. length (xs ! i) = length (ys ! i)" by auto
  ultimately show ?case
    using Cons.IH by (simp add: sum_grid_def add_grid_def sum_list_map2_add ac_simps)
qed

lemma sum_grid_add:
  fixes a :: "'a::comm_monoid_add list list"
  shows "grid_shape a r c \<Longrightarrow> grid_shape b r c \<Longrightarrow> sum_grid (add_grid a b) = sum_grid a + sum_grid b"
  by (rule sum_grid_add_aux) (simp_all add: grid_shape_def list_all_length)

lemma hist_grid_shape: "grid_shape (hist_grid s xb yb) (length xb - 1) (length yb - 1)"
  by (simp add: grid_shape_def hist_grid_def list_all_iff)

lemma astype_int_shape: "grid_shape g r c \<Longrightarrow> grid_shape (astype_int g) r c"
  by (simp add: grid_shape_def astype_int_def list_all_iff)

lemma py_int_of_nat: "py_int (real n) = int n"
  by (simp add: py_int_def)

lemma hist_grid_nth:
  "i < length xb - 1 \<Longrightarrow> j < length yb - 1 \<Longrightarrow>
   hist_grid s xb yb ! i ! j =
     sum_list (map (\<lambda>(x, y, w). w)
       (filter (\<lambda>(x, y, w). bin_index xb x = Some i \<and> bin_index yb y = Some j) s))"
  by (simp add: hist_grid_def)

lemma sum_list_unit_weights:
  "\<forall>s\<in>set l. (case s of (x, y, w) \<Rightarrow> w) = (1::real) \<Longrightarrow>
     sum_list (map (\<lambda>(x, y, w). w) (filter P l)) = real (length (filter P l))"
  by (induction l) auto

lemma count_grid_sum:
  assumes bx: "\<And>s i. bx s = Some i \<Longrightarrow> i < r" and bc: "\<And>s j. by s = Some j \<Longrightarrow> j < c"
  shows "sum_grid (map (\<lambda>i. map (\<lambda>j. int (length (filter (\<lambda>s. bx s = Some i \<and> by s = Some j) l))) [0..<c]) [0..<r])
         = int (length (filter (\<lambda>s. bx s \<noteq> None \<and> by s \<noteq> None) l))"
proof -
  have conv: "sum_grid (map (\<lambda>i. map (\<lambda>j. g i j) [0..<c]) [0..<r]) = (\<Sum>i<r. \<Sum>j<c. g i j)"
    for g :: "nat \<Rightarrow> nat \<Rightarrow> int"
    by (simp add: sum_grid_def comp_def interv_sum_list_conv_sum_set_nat atLeast0LessThan)
  have one: "(\<Sum>i<r. \<Sum>j<c. (if bx s = Some i \<and> by s = Some j then 1 else 0)) =
             (if bx s \<noteq> None \<and> by s \<noteq> None then (1::int) else 0)" for s
  proof (cases "bx s")
    case None
    then show ?thesis by simp
  next
    case (Some i0)
    note i0 = this
    show ?thesis
    proof (cases "by s")
      case None
      then show ?thesis by simp
    next
      case (Some j0)
      have "(\<Sum>j<c. (if i0 = i \<and> j0 = j then 1 else 0)) = (if i0 = i then (1::int) else 0)" for i
        using bc [OF Some] by (simp add: sum.delta)
      then show ?thesis
        using bx [OF i0] i0 Some by (simp add: sum.delta)
    qed
  qed
  have "(\<Sum>i<r. \<Sum>j<c. int (length (filter (\<lambda>s. bx s = Some i \<and> by s = Some j) l)))
        = int (length (filter (\<lambda>s. bx s \<noteq> None \<and> by s \<noteq> None) l))"
  proof (induction l)
    case Nil
    then show ?case by simp
  next
    case (Cons s l)
    have "(\<Sum>i<r. \<Sum>j<c. int (length (filter (\<lambda>s. bx s = Some i \<and> by s = Some j) (s # l))))
        = (\<Sum>i<r. \<Sum>j<c. (if bx s = Some i \<and> by s = Some j then 1 else 0)
              + int (length (filter (\<lambda>s. bx s = Some i \<and> by s = Some j) l)))"
      by (intro sum.cong refl) simp
    also have "\<dots> = (\<Sum>i<r. \<Sum>j<c. (if bx s = Some i \<and> by s = Some j then 1 else 0))
              + (\<Sum>i<r. \<Sum>j<c. int (length (filter (\<lambda>s. bx s = Some i \<and> by s = Some j) l)))"
      by (simp add: sum.distrib)
    finally show ?case
      using Cons.IH one [of s] by simp
  qed
  then show ?thesis by (simp add: conv)
qed

lemma length_filter_zip3:
  "length xs = length ys \<Longrightarrow> length ys = length ws \<Longrightarrow>
   length (filter (\<lambda>(x, y, w). Q x y) (zip xs (zip ys ws))) = length (filter (\<lambda>(x, y). Q x y) (zip xs ys))"
  by (induction xs ys ws rule: list_induct3) auto

subsection \<open>One detector\<close>

lemma hist_count_sum:
  "sum_grid (map (\<lambda>i. map (\<lambda>j. int (length
       (filter (\<lambda>(x, y, w). bin_index xb x = Some i \<and> bin_index yb y = Some j) l)))
       [0..<length yb - 1]) [0..<length xb - 1])
   = int (length (filter (\<lambda>(x, y, w). bin_index xb x \<noteq> None \<and> bin_index yb y \<noteq> None) l))"
proof -
  have "sum_grid (map (\<lambda>i. map (\<lambda>j. int (length
       (filter (\<lambda>s. (case s of (x, y, w) \<Rightarrow> bin_index xb x) = Some i
                     \<and> (case s of (x, y, w) \<Rightarrow> bin_index yb y) = Some j) l)))
       [0..<length yb - 1]) [0..<length xb - 1])
   = int (length (filter (\<lambda>s. (case s of (x, y, w) \<Rightarrow> bin_index xb x) \<noteq> None
                     \<and> (case s of (x, y, w) \<Rightarrow> bin_index yb y) \<noteq> None) l))"
    by (rule count_grid_sum) (auto dest: bin_index_bound)
  then show ?thesis by (simp add: case_prod_unfold)
qed

lemma unit_hist_entry:
  assumes "length xs = length ys" and "xs = [] \<or> length ys = length ws"
  shows "py_int (sum_list (map (\<lambda>(x, y, w). w)
            (filter (\<lambda>(x, y, w). bin_index xb x = Some i \<and> bin_index yb y = Some j)
               (zip xs (zip ys (replicate (length xs) 1))))))
         = int (length (filter (\<lambda>(x, y, w). bin_index xb x = Some i \<and> bin_index yb y = Some j)
               (zip xs (zip ys ws))))"
proof (cases "xs = []")
  case True
  then show ?thesis by (simp add: py_int_def)
next
  case False
  with assms(2) have lw: "length ys = length ws" by simp
  let ?P = "\<lambda>(x, y, w). bin_index xb x = Some i \<and> bin_index yb y = Some j"
  let ?U = "zip xs (zip ys (replicate (length xs) (1::real)))"
  have "\<forall>s\<in>set ?U. (case s of (x, y, w) \<Rightarrow> w) = 1"
    by (auto dest!: set_zip_rightD)
  then have "sum_list (map (\<lambda>(x, y, w). w) (filter ?P ?U)) = real (length (filter ?P ?U))"
    by (rule sum_list_unit_weights)
  moreover have "length (filter ?P ?U) = length (filter ?P (zip xs (zip ys ws)))"
    using assms(1) lw
      length_filter_zip3 [of xs ys "replicate (length xs) (1::real)"
        "\<lambda>x y. bin_index xb x = Some i \<and> bin_index yb y = Some j"]
      length_filter_zip3 [of xs ys ws
        "\<lambda>x y. bin_index xb x = Some i \<and> bin_index yb y = Some j"]
    by simp
  ultimately show ?thesis by (simp add: py_int_of_nat)
qed

lemma unit_hist_counts:
  assumes "length xs = length ys" and "xs = [] \<or> length ys = length ws"
  shows "astype_int (hist_grid (zip xs (zip ys (replicate (length xs) 1))) xb yb)
       = map (\<lambda>i. map (\<lambda>j. int (length
           (filter (\<lambda>(x, y, w). bin_index xb x = Some i \<and> bin_index yb y = Some j) (zip xs (zip ys ws)))))
           [0..<length yb - 1]) [0..<length xb - 1]"
  unfolding astype_int_def hist_grid_def map_map comp_def
  by (intro map_cong refl unit_hist_entry assms)

lemma bin_detector_ok:
  assumes "bin_detector acc f br kid y_raw = (acc', None)"
  shows "\<exists>det_q pts. det_offset_dict acc kid = Some det_q \<and> detector_radec br det_q = Inr pts
           \<and> (pts = [] \<or> length (reconstruct f kid y_raw) = length pts)
           \<and> sorted (dec_edges acc) \<and> sorted (ra_edges acc)
           \<and> dec_edges acc \<noteq> [] \<and> ra_edges acc \<noteq> []
           \<and> acc' = acc\<lparr>sky_map := add_grid (sky_map acc)
                            (hist_grid (zip (map snd pts) (zip (map fst pts) (reconstruct f kid y_raw)))
                               (dec_edges acc) (ra_edges acc)),
                         hits_map := add_grid (hits_map acc)
                            (astype_int (hist_grid (zip (map snd pts) (zip (map fst pts) (replicate (length pts) 1)))
                               (dec_edges acc) (ra_edges acc)))\<rparr>"
  using assms
  by (auto simp: bin_detector_def histogram2d_def Let_def split: option.splits sum.splits if_splits)

lemma in_pixel_bin_index:
  "sorted de \<Longrightarrow> sorted re \<Longrightarrow>
     in_pixel de re i j = (\<lambda>(x, y, w). bin_index de x = Some i \<and> bin_index re y = Some j)"
  by (simp add: in_pixel_def fun_eq_iff bin_index_in_bin)

lemma in_map_bin_index:
  "sorted de \<Longrightarrow> sorted re \<Longrightarrow>
     in_map de re = (\<lambda>(x, y, w). bin_index de x \<noteq> None \<and> bin_index re y \<noteq> None)"
  by (simp add: in_map_def fun_eq_iff in_grid_bin_index)

lemma weight_conv: "weight = (\<lambda>(x, y, w). w)"
  by (simp add: weight_def fun_eq_iff)

lemma bin_detector_effect:
  assumes ok: "bin_detector acc f br kid y_raw = (acc', None)" and inv: "acc_ok acc"
  shows "acc_ok acc' \<and> dec_edges acc' = dec_edges acc \<and> ra_edges acc' = ra_edges acc
       \<and> det_offset_dict acc' = det_offset_dict acc
       \<and> sorted (dec_edges acc) \<and> sorted (ra_edges acc)
       \<and> sum_grid (hits_map acc') = sum_grid (hits_map acc)
           + int (length (filter (in_map (dec_edges acc) (ra_edges acc))
                    (detector_samples (det_offset_dict acc) f br (kid, y_raw))))
       \<and> (\<forall>i j. i < length (dec_edges acc) - 1 \<and> j < length (ra_edges acc) - 1 \<longrightarrow>
            hits_map acc' ! i ! j = hits_map acc ! i ! j
              + int (length (filter (in_pixel (dec_edges acc) (ra_edges acc) i j)
                      (detector_samples (det_offset_dict acc) f br (kid, y_raw))))
          \<and> sky_map acc' ! i ! j = sky_map acc ! i ! j
              + sum_list (map weight (filter (in_pixel (dec_edges acc) (ra_edges acc) i j)
                      (detector_samples (det_offset_dict acc) f br (kid, y_raw)))))"
proof -
  from bin_detector_ok [OF ok] obtain det_q pts where
    dq: "det_offset_dict acc kid = Some det_q" and pts: "detector_radec br det_q = Inr pts"
    and len: "pts = [] \<or> length (reconstruct f kid y_raw) = length pts"
    and sd: "sorted (dec_edges acc)" and sr: "sorted (ra_edges acc)"
    and acc': "acc' = acc\<lparr>sky_map := add_grid (sky_map acc)
                            (hist_grid (zip (map snd pts) (zip (map fst pts) (reconstruct f kid y_raw)))
                               (dec_edges acc) (ra_edges acc)),
                         hits_map := add_grid (hits_map acc)
                            (astype_int (hist_grid (zip (map snd pts) (zip (map fst pts) (replicate (length pts) 1)))
                               (dec_edges acc) (ra_edges acc)))\<rparr>"
    by blast
  define S where "S = zip (map snd pts) (zip (map fst pts) (reconstruct f kid y_raw))"
  define de where "de = dec_edges acc"
  define re where "re = ra_edges acc"
  define nr where "nr = length de - 1"
  define nc where "nc = length re - 1"
  define H where "H = hist_grid S de re"
  define C where "C = astype_int (hist_grid (zip (map snd pts) (zip (map fst pts) (replicate (length pts) 1))) de re)"
  have samples: "detector_samples (det_offset_dict acc) f br (kid, y_raw) = S"
    by (simp add: detector_samples_def dq pts S_def)
  have "C = map (\<lambda>i. map (\<lambda>j. int (length
           (filter (\<lambda>(x, y, w). bin_index de x = Some i \<and> bin_index re y = Some j) S)))
           [0..<length re - 1]) [0..<length de - 1]"
    using unit_hist_counts [of "map snd pts" "map fst pts" "reconstruct f kid y_raw" de re] len
    by (auto simp: C_def S_def)
  then have Ceq: "C = map (\<lambda>i. map (\<lambda>j. int (length (filter (in_pixel de re i j) S))) [0..<nc]) [0..<nr]"
    using sd sr by (simp add: in_pixel_bin_index de_def re_def nr_def nc_def)
  have shH: "grid_shape H nr nc"
    unfolding H_def nr_def nc_def by (rule hist_grid_shape)
  have shC: "grid_shape C nr nc"
    unfolding C_def nr_def nc_def by (rule astype_int_shape) (rule hist_grid_shape)
  from inv have shs: "grid_shape (sky_map acc) nr nc"
    and shh: "grid_shape (hits_map acc) nr nc"
    and ne: "ra_edges acc \<noteq> []" "dec_edges acc \<noteq> []"
    by (simp_all add: acc_ok_def de_def re_def nr_def nc_def)
  have sky': "sky_map acc' = add_grid (sky_map acc) H"
    and hits': "hits_map acc' = add_grid (hits_map acc) C"
    and same: "dec_edges acc' = dec_edges acc" "ra_edges acc' = ra_edges acc"
      "det_offset_dict acc' = det_offset_dict acc"
    by (simp_all add: acc' H_def C_def S_def de_def re_def)
  have "grid_shape (sky_map acc') nr nc" "grid_shape (hits_map acc') nr nc"
    using shs shh shH shC by (simp_all add: sky' hits' add_grid_shape)
  then have ok': "acc_ok acc'"
    using ne by (simp add: acc_ok_def same de_def [symmetric] re_def [symmetric] nr_def nc_def)
  have "sum_grid C = int (length (filter (in_map de re) S))"
    using hist_count_sum [of de re S] sd sr
    by (simp add: Ceq in_pixel_bin_index in_map_bin_index de_def re_def nr_def nc_def)
  then have total: "sum_grid (hits_map acc') = sum_grid (hits_map acc) + int (length (filter (in_map de re) S))"
    using sum_grid_add [OF shh shC] by (simp add: hits')
  have pix: "hits_map acc' ! i ! j = hits_map acc ! i ! j + int (length (filter (in_pixel de re i j) S))
      \<and> sky_map acc' ! i ! j = sky_map acc ! i ! j + sum_list (map weight (filter (in_pixel de re i j) S))"
    if "i < nr" and "j < nc" for i j
  proof -
    have "C ! i ! j = int (length (filter (in_pixel de re i j) S))"
      using that by (simp add: Ceq)
    moreover have "H ! i ! j = sum_list (map weight (filter (in_pixel de re i j) S))"
      using that sd sr unfolding H_def nr_def nc_def
      by (simp add: hist_grid_nth in_pixel_bin_index weight_conv de_def re_def)
    ultimately show ?thesis
      using add_grid_nth [OF shh shC that] add_grid_nth [OF shs shH that]
      by (simp add: sky' hits')
  qed
  show ?thesis
    using ok' same sd sr total pix unfolding nr_def nc_def
    by (simp add: samples de_def [symmetric] re_def [symmetric])
qed

subsection \<open>The loop over the detectors\<close>

lemma bin_detector_keeps:
  "bin_detector acc f br kid y_raw = (acc', r) \<Longrightarrow>
     det_offset_dict acc' = det_offset_dict acc \<and> dec_edges acc' = dec_edges acc
     \<and> ra_edges acc' = ra_edges acc"
  by (auto simp: bin_detector_def Let_def split: option.splits sum.splits)

lemma scan_loop_keeps:
  "scan_loop acc f br kids = (acc', r) \<Longrightarrow>
     det_offset_dict acc' = det_offset_dict acc \<and> dec_edges acc' = dec_edges acc
     \<and> ra_edges acc' = ra_edges acc"
proof (induction kids arbitrary: acc)
  case Nil
  then show ?case by simp
next
  case (Cons d kids)
  obtain kid y_raw where d: "d = (kid, y_raw)" by (cases d)
  obtain acc1 r1 where b: "bin_detector acc f br kid y_raw = (acc1, r1)"
    by (cases "bin_detector acc f br kid y_raw")
  show ?case
  proof (cases r1)
    case None
    with Cons.prems d b have "scan_loop acc1 f br kids = (acc', r)" by simp
    from Cons.IH [OF this] bin_detector_keeps [OF b] show ?thesis by simp
  next
    case (Some e)
    with Cons.prems d b have "acc' = acc1" by simp
    with bin_detector_keeps [OF b] show ?thesis by simp
  qed
qed

lemma scan_loop_append:
  "scan_loop acc f br (pre @ rest) =
     (case scan_loop acc f br pre of
        (a, Some e) \<Rightarrow> (a, Some e)
      | (a, None) \<Rightarrow> scan_loop a f br rest)"
  by (induction pre arbitrary: acc) (auto split: prod.splits option.splits)

lemma bin_detector_unknown:
  "det_offset_dict acc kid = None \<Longrightarrow> bin_detector acc f br kid y_raw = (acc, Some KeyError)"
  by (simp add: bin_detector_def)

lemma rot_mul_all_length: "rot_mul_all br r = Inr rs \<Longrightarrow> length rs = length br"
  by (induction br arbitrary: rs) (auto split: sum.splits)

lemma from_quats_length: "from_quats qs = Inr rs \<Longrightarrow> length rs = length qs"
  by (induction qs arbitrary: rs) (auto split: sum.splits)

lemma detector_radec_length: "detector_radec br det_q = Inr pts \<Longrightarrow> length pts = length br"
  by (auto simp: detector_radec_def rot_mul_all_length split: sum.splits)

lemma detector_samples_length:
  assumes "bin_detector acc f br kid y_raw = (acc', None)"
  shows "length (detector_samples (det_offset_dict acc) f br (kid, y_raw)) = length br"
proof -
  from bin_detector_ok [OF assms] obtain det_q pts where
    "det_offset_dict acc kid = Some det_q" "detector_radec br det_q = Inr pts"
    "pts = [] \<or> length (reconstruct f kid y_raw) = length pts"
    by blast
  then show ?thesis
    using detector_radec_length [of br det_q pts]
    by (auto simp: detector_samples_def)
qed

lemma scan_loop_effect:
  assumes "scan_loop acc f br kids = (acc', None)" and "acc_ok acc"
  shows "acc_ok acc'
       \<and> (kids \<noteq> [] \<longrightarrow> sorted (dec_edges acc) \<and> sorted (ra_edges acc))
       \<and> (\<forall>d\<in>set kids. length (detector_samples (det_offset_dict acc) f br d) = length br)
       \<and> sum_grid (hits_map acc') = sum_grid (hits_map acc)
           + (\<Sum>d\<leftarrow>kids. int (length (filter (in_map (dec_edges acc) (ra_edges acc))
                    (detector_samples (det_offset_dict acc) f br d))))
       \<and> (\<forall>i j. i < length (dec_edges acc) - 1 \<and> j < length (ra_edges acc) - 1 \<longrightarrow>
            hits_map acc' ! i ! j = hits_map acc ! i ! j
              + (\<Sum>d\<leftarrow>kids. int (length (filter (in_pixel (dec_edges acc) (ra_edges acc) i j)
                      (detector_samples (det_offset_dict acc) f br d))))
          \<and> sky_map acc' ! i ! j = sky_map acc ! i ! j
              + (\<Sum>d\<leftarrow>kids. sum_list (map weight (filter (in_pixel (dec_edges acc) (ra_edges acc) i j)
                      (detector_samples (det_offset_dict acc) f br d)))))"
  using assms
proof (induction kids arbitrary: acc)
  case Nil
  then show ?case by simp
next
  case (Cons d kids)
  obtain kid y_raw where d: "d = (kid, y_raw)" by (cases d)
  obtain acc1 r1 where b: "bin_detector acc f br kid y_raw = (acc1, r1)"
    by (cases "bin_detector acc f br kid y_raw")
  from Cons.prems(1) d b have r1: "r1 = None"
    by (cases r1) simp_all
  with Cons.prems(1) d b have rest: "scan_loop acc1 f br kids = (acc', None)" by simp
  from b r1 have b': "bin_detector acc f br kid y_raw = (acc1, None)" by simp
  note eff = bin_detector_effect [OF b' Cons.prems(2)]
  from eff have ok1: "acc_ok acc1" by simp
  note ih = Cons.IH [OF rest ok1]
  from eff have same: "dec_edges acc1 = dec_edges acc" "ra_edges acc1 = ra_edges acc"
    "det_offset_dict acc1 = det_offset_dict acc" by simp_all
  show ?case
    using eff ih detector_samples_length [OF b']
    by (simp add: same d)
qed

subsection \<open>Evaluating the concrete run\<close>

lemma upt_2: "[0..<2] = [0, Suc 0]"
  by (simp add: upt_conv_Cons)

lemma scan_of_fields:
  "ftype (scan_of sig) = Scan" "signal (scan_of sig) = Some sig"
  "shared_boresight_radec (scan_of sig) = Some boresight2"
  by (simp_all add: scan_of_def)

lemma from_quats_boresight2:
  "from_quats (map scalar_last boresight2) = Inr [(1 / 2, 1 / 2, 1 / 2, 1 / 2), (0, 0, 0, 1)]"
  by (simp add: boresight2_def scalar_last_def from_quat_def quat_norm_def)

lemma radec_x: "radec (1, 0, 0) = (0, 0)"
  by (simp add: radec_def arctan2_def degrees_def py_mod_def py_int_def)

lemma radec_z: "radec (0, 0, 1) = (0, 90)"
  by (simp add: radec_def arctan2_def degrees_def py_mod_def py_int_def)

lemma detector_radec_boresight2:
  "detector_radec [(1 / 2, 1 / 2, 1 / 2, 1 / 2), (0, 0, 0, 1)] (0, 0, 0, 1) = Inr [(0, 0), (0, 90)]"
  by (simp add: detector_radec_def rot_mul_def compose_quat_def from_quat_def quat_norm_def
      rot_apply_def z_axis_def radec_x radec_z)

lemma bin_index_0: "bin_index [- (1 / 2), 0, 1 / 2] 0 = Some (Suc 0)"
  by (simp add: bin_index_def)

lemma bin_index_90: "bin_index [- (1 / 2), 0, 1 / 2] 90 = None"
  by (simp add: bin_index_def)

lemma detector_samples_a:
  "detector_samples [''a'' \<mapsto> (0, 0, 0, 1)] (scan_of sig)
      [(1 / 2, 1 / 2, 1 / 2, 1 / 2), (0, 0, 0, 1)] (''a'', [u, v]) = [(0, 0, u), (90, 0, v)]"
  by (simp add: detector_samples_def detector_radec_boresight2 reconstruct_def scan_of_def)

lemma bin_detector_a:
  assumes "det_offset_dict acc ''a'' = Some (0, 0, 0, 1)"
    and "dec_edges acc = [- (1 / 2), 0, 1 / 2]" and "ra_edges acc = [- (1 / 2), 0, 1 / 2]"
    and "sky_map acc = [[s00, s01], [s10, s11]]" and "hits_map acc = [[h00, h01], [h10, h11]]"
  shows "bin_detector acc (scan_of sig) [(1 / 2, 1 / 2, 1 / 2, 1 / 2), (0, 0, 0, 1)] ''a'' [u, v] =
     (acc\<lparr>sky_map := [[s00, s01], [s10, s11 + u]], hits_map := [[h00, h01], [h10, h11 + 1]]\<rparr>, None)"
  using assms
  by (simp add: bin_detector_def reconstruct_def scan_of_def detector_radec_boresight2
      histogram2d_def hist_grid_def bin_index_0 bin_index_90 upt_2 add_grid_def astype_int_def
      py_int_def Let_def)

lemma acc_ok_cal: "acc_ok acc_cal"
  by (simp add: acc_ok_def grid_shape_def acc_cal_def acc0_def)

lemma Process_scan_a:
  "Process acc_cal (scan_of [(''a'', [3, 5])]) = (acc_hit, Returned (Some (scan_of [(''a'', [3, 5])])) None)"
proof -
  have "bin_detector acc_cal (scan_of [(''a'', [3, 5])]) [(1 / 2, 1 / 2, 1 / 2, 1 / 2), (0, 0, 0, 1)] ''a'' [3, 5]
      = (acc_hit, None)"
    by (subst bin_detector_a [of _ 0 0 0 0 0 0 0 0]) (simp_all add: acc_cal_def acc0_def acc_hit_def)
  then show ?thesis
    by (simp add: Process_def scan_of_fields from_quats_boresight2)
qed

lemma Process_scan_ab:
  "Process acc_cal (scan_of [(''a'', [3, 5]), (''b'', [1, 1])]) = (acc_hit, Raised KeyError)"
proof -
  have "bin_detector acc_cal (scan_of [(''a'', [3, 5]), (''b'', [1, 1])]) [(1 / 2, 1 / 2, 1 / 2, 1 / 2), (0, 0, 0, 1)] ''a'' [3, 5]
      = (acc_hit, None)"
    by (subst bin_detector_a [of _ 0 0 0 0 0 0 0 0]) (simp_all add: acc_cal_def acc0_def acc_hit_def)
  moreover have "det_offset_dict acc_hit ''b'' = None"
    by (simp add: acc_hit_def acc_cal_def)
  ultimately show ?thesis
    by (simp add: Process_def scan_of_fields from_quats_boresight2 bin_detector_unknown)
qed

lemma Process_scan_neg:
  "Process acc_hit (scan_of [(''a'', [- 1, 5])]) =
     (acc_hit\<lparr>sky_map := [[0, 0], [0, 2]], hits_map := [[0, 0], [0, 2]]\<rparr>,
      Returned (Some (scan_of [(''a'', [- 1, 5])])) None)"
proof -
  have "bin_detector acc_hit (scan_of [(''a'', [- 1, 5])]) [(1 / 2, 1 / 2, 1 / 2, 1 / 2), (0, 0, 0, 1)] ''a'' [- 1, 5]
      = (acc_hit\<lparr>sky_map := [[0, 0], [0, 2]], hits_map := [[0, 0], [0, 2]]\<rparr>, None)"
    by (subst bin_detector_a [of _ 0 0 0 3 0 0 0 1]) (simp_all add: acc_cal_def acc0_def acc_hit_def)
  then show ?thesis
    by (simp add: Process_def scan_of_fields from_quats_boresight2)
qed

subsection \<open>Scan frames\<close>

lemma Process_scan_ok:
  assumes "ftype f = Scan" and "signal f = Some raw_signal"
    and "shared_boresight_radec f = Some boresight_q"
    and "from_quats (map scalar_last boresight_q) = Inr boresight_r"
    and "Process acc f = (acc', Returned v p)"
  shows "scan_loop acc f boresight_r raw_signal = (acc', None)"
  using assms by (auto simp: Process_def split: prod.splits option.splits)

lemma in_pixel_in_map: "in_pixel de re i j s \<Longrightarrow> in_map de re s"
  by (cases s) (auto simp: in_pixel_def in_map_def in_grid_def in_bin_def list_ex_iff)

lemma weight_in_reconstruct:
  "s \<in> set (detector_samples dict f br (kid, y_raw)) \<Longrightarrow> weight s \<in> set (reconstruct f kid y_raw)"
  by (cases s)
    (auto simp: detector_samples_def weight_def split: option.splits sum.splits
      dest!: set_zip_rightD)

lemma detector_weights_nonneg:
  assumes "\<forall>y\<in>set (reconstruct f (fst d) (snd d)). 0 \<le> y"
  shows "0 \<le> sum_list (map weight (filter P (detector_samples dict f br d)))"
proof (rule sum_list_nonneg)
  fix x assume "x \<in> set (map weight (filter P (detector_samples dict f br d)))"
  then obtain s where "s \<in> set (detector_samples dict f br d)" and "x = weight s" by auto
  with weight_in_reconstruct [of s dict f br "fst d" "snd d"] assms show "0 \<le> x" by simp
qed

text \<open>
  Claim C3.  A scan frame that is processed without an exception raises the sum of
  \<open>hits_map\<close> over all pixels by the number of samples, summed over the detectors of
  the frame, whose \<open>(dec, ra)\<close> falls in a bin on both axes, the bins being those of the
  rule \<open>edges[i] \<le> v < edges[i+1]\<close> with the last bin closed on the right.  Every
  detector contributes one sample per boresight sample.  Pixel by pixel, the hit count
  rises by the number of samples in that pixel and the signal by the sum of their
  values; a sample that is outside the map is in no pixel, so it changes neither grid.
  When the frame has a detector and each axis has at least one bin, a sample is in the
  map exactly when its declination and its right ascension lie between the first and the
  last edge of their axis, both ends included.
\<close>

theorem hit_count_conservation:
  assumes "acc_ok acc" and "ftype f = Scan" and "signal f = Some raw_signal"
    and "shared_boresight_radec f = Some boresight_q"
    and "from_quats (map scalar_last boresight_q) = Inr boresight_r"
    and "Process acc f = (acc', Returned v p)"
  shows "sum_grid (hits_map acc') - sum_grid (hits_map acc)
           = (\<Sum>d\<leftarrow>raw_signal. int (length (filter (in_map (dec_edges acc) (ra_edges acc))
                  (detector_samples (det_offset_dict acc) f boresight_r d))))
       \<and> (\<forall>d\<in>set raw_signal.
            length (detector_samples (det_offset_dict acc) f boresight_r d) = length boresight_q)
       \<and> (\<forall>i j. i < length (dec_edges acc) - 1 \<and> j < length (ra_edges acc) - 1 \<longrightarrow>
            hits_map acc' ! i ! j - hits_map acc ! i ! j
              = (\<Sum>d\<leftarrow>raw_signal. int (length (filter (in_pixel (dec_edges acc) (ra_edges acc) i j)
                      (detector_samples (det_offset_dict acc) f boresight_r d))))
          \<and> sky_map acc' ! i ! j - sky_map acc ! i ! j
              = (\<Sum>d\<leftarrow>raw_signal. sum_list (map weight (filter (in_pixel (dec_edges acc) (ra_edges acc) i j)
                      (detector_samples (det_offset_dict acc) f boresight_r d)))))
       \<and> (\<forall>i j s. in_pixel (dec_edges acc) (ra_edges acc) i j s
            \<longrightarrow> in_map (dec_edges acc) (ra_edges acc) s)
       \<and> (raw_signal \<noteq> [] \<and> 2 \<le> length (dec_edges acc) \<and> 2 \<le> length (ra_edges acc) \<longrightarrow>
            (\<forall>dec ra y. in_map (dec_edges acc) (ra_edges acc) (dec, ra, y) =
               (hd (dec_edges acc) \<le> dec \<and> dec \<le> last (dec_edges acc)
                \<and> hd (ra_edges acc) \<le> ra \<and> ra \<le> last (ra_edges acc))))"
proof -
  have loop: "scan_loop acc f boresight_r raw_signal = (acc', None)"
    using assms(2-6) by (rule Process_scan_ok)
  have len: "length boresight_r = length boresight_q"
    using from_quats_length [OF assms(5)] by simp
  note eff = scan_loop_effect [OF loop assms(1)]
  have "in_map (dec_edges acc) (ra_edges acc) (dec, ra, y) =
               (hd (dec_edges acc) \<le> dec \<and> dec \<le> last (dec_edges acc)
                \<and> hd (ra_edges acc) \<le> ra \<and> ra \<le> last (ra_edges acc))"
    if "raw_signal \<noteq> [] \<and> 2 \<le> length (dec_edges acc) \<and> 2 \<le> length (ra_edges acc)"
    for dec ra y
    using that eff by (simp add: in_map_def in_grid_interval)
  then show ?thesis
    using eff in_pixel_in_map
    by (simp add: len)
qed

theorem hit_count_conservation_witness:
  "acc_ok acc_cal
   \<and> Process acc_cal (scan_of [(''a'', [3, 5])])
       = (acc_hit, Returned (Some (scan_of [(''a'', [3, 5])])) None)
   \<and> length (detector_samples (det_offset_dict acc_cal) (scan_of [(''a'', [3, 5])])
         [(1 / 2, 1 / 2, 1 / 2, 1 / 2), (0, 0, 0, 1)] (''a'', [3, 5])) = 2
   \<and> sum_grid (hits_map acc_hit) - sum_grid (hits_map acc_cal)
       = int (length (filter (in_map (dec_edges acc_cal) (ra_edges acc_cal))
           (detector_samples (det_offset_dict acc_cal) (scan_of [(''a'', [3, 5])])
              [(1 / 2, 1 / 2, 1 / 2, 1 / 2), (0, 0, 0, 1)] (''a'', [3, 5]))))
   \<and> sum_grid (hits_map acc_hit) - sum_grid (hits_map acc_cal) = 1"
  using hit_count_conservation [OF acc_ok_cal scan_of_fields from_quats_boresight2 Process_scan_a]
    acc_ok_cal Process_scan_a
  by (simp add: boresight2_def sum_grid_def acc_hit_def acc_cal_def acc0_def)


text \<open>
  Claim C7, as amended.  While a scan frame is processed without an exception no hit count
  decreases.  The signal of a pixel changes by the signed sum of the values binned into
  it: it does not decrease when every reconstructed sample value of the frame is
  non-negative, and then its magnitude does not decrease either if the pixel held a
  non-negative sum.
\<close>

theorem hits_never_decrease:
  assumes "acc_ok acc" and "ftype f = Scan" and "signal f = Some raw_signal"
    and "shared_boresight_radec f = Some boresight_q"
    and "from_quats (map scalar_last boresight_q) = Inr boresight_r"
    and "Process acc f = (acc', Returned v p)"
  shows "\<forall>i j. i < length (dec_edges acc) - 1 \<and> j < length (ra_edges acc) - 1 \<longrightarrow>
           hits_map acc ! i ! j \<le> hits_map acc' ! i ! j
         \<and> ((\<forall>d\<in>set raw_signal. \<forall>y\<in>set (reconstruct f (fst d) (snd d)). 0 \<le> y) \<longrightarrow>
              sky_map acc ! i ! j \<le> sky_map acc' ! i ! j
            \<and> (0 \<le> sky_map acc ! i ! j \<longrightarrow> \<bar>sky_map acc ! i ! j\<bar> \<le> \<bar>sky_map acc' ! i ! j\<bar>))"
proof (intro allI impI)
  fix i j
  assume ij: "i < length (dec_edges acc) - 1 \<and> j < length (ra_edges acc) - 1"
  have loop: "scan_loop acc f boresight_r raw_signal = (acc', None)"
    using assms(2-6) by (rule Process_scan_ok)
  let ?P = "in_pixel (dec_edges acc) (ra_edges acc) i j"
  let ?S = "detector_samples (det_offset_dict acc) f boresight_r"
  from scan_loop_effect [OF loop assms(1)] ij
  have hits: "hits_map acc' ! i ! j = hits_map acc ! i ! j
                + (\<Sum>d\<leftarrow>raw_signal. int (length (filter ?P (?S d))))"
    and sky: "sky_map acc' ! i ! j = sky_map acc ! i ! j
                + (\<Sum>d\<leftarrow>raw_signal. sum_list (map weight (filter ?P (?S d))))"
    by simp_all
  have "0 \<le> (\<Sum>d\<leftarrow>raw_signal. int (length (filter ?P (?S d))))"
    by (rule sum_list_nonneg) auto
  with hits have h: "hits_map acc ! i ! j \<le> hits_map acc' ! i ! j" by simp
  have s: "sky_map acc ! i ! j \<le> sky_map acc' ! i ! j"
    if nonneg: "\<forall>d\<in>set raw_signal. \<forall>y\<in>set (reconstruct f (fst d) (snd d)). 0 \<le> y"
  proof -
    have "0 \<le> (\<Sum>d\<leftarrow>raw_signal. sum_list (map weight (filter ?P (?S d))))"
    proof (rule sum_list_nonneg)
      fix x assume "x \<in> set (map (\<lambda>d. sum_list (map weight (filter ?P (?S d)))) raw_signal)"
      then obtain d where "d \<in> set raw_signal" and "x = sum_list (map weight (filter ?P (?S d)))"
        by auto
      with nonneg detector_weights_nonneg [of f d] show "0 \<le> x" by simp
    qed
    with sky show ?thesis by simp
  qed
  from h s show "hits_map acc ! i ! j \<le> hits_map acc' ! i ! j
         \<and> ((\<forall>d\<in>set raw_signal. \<forall>y\<in>set (reconstruct f (fst d) (snd d)). 0 \<le> y) \<longrightarrow>
              sky_map acc ! i ! j \<le> sky_map acc' ! i ! j
            \<and> (0 \<le> sky_map acc ! i ! j \<longrightarrow> \<bar>sky_map acc ! i ! j\<bar> \<le> \<bar>sky_map acc' ! i ! j\<bar>))"
    by auto
qed

theorem hits_never_decrease_witness:
  "Process acc_cal (scan_of [(''a'', [3, 5])])
       = (acc_hit, Returned (Some (scan_of [(''a'', [3, 5])])) None)
   \<and> reconstruct (scan_of [(''a'', [3, 5])]) ''a'' [3, 5] = [3, 5]
   \<and> hits_map acc_cal ! 1 ! 1 \<le> hits_map acc_hit ! 1 ! 1
   \<and> sky_map acc_cal ! 1 ! 1 \<le> sky_map acc_hit ! 1 ! 1
   \<and> \<bar>sky_map acc_cal ! 1 ! 1\<bar> \<le> \<bar>sky_map acc_hit ! 1 ! 1\<bar>"
  using hits_never_decrease [OF acc_ok_cal scan_of_fields from_quats_boresight2 Process_scan_a]
    Process_scan_a
  by (simp add: reconstruct_def scan_of_def acc_hit_def acc_cal_def acc0_def)

theorem signal_magnitude_counterexample:
  "Process acc_cal (scan_of [(''a'', [3, 5])])
       = (acc_hit, Returned (Some (scan_of [(''a'', [3, 5])])) None)
   \<and> snd (Process acc_hit (scan_of [(''a'', [- 1, 5])]))
       = Returned (Some (scan_of [(''a'', [- 1, 5])])) None
   \<and> \<bar>sky_map (fst (Process acc_hit (scan_of [(''a'', [- 1, 5])]))) ! 1 ! 1\<bar>
       < \<bar>sky_map acc_hit ! 1 ! 1\<bar>"
  by (simp add: Process_scan_a Process_scan_neg) (simp add: acc_hit_def)

text \<open>
  Claim C1, as amended.  A non-empty scan frame that arrives while the offset table is
  empty raises \<^verbatim>\<open>KeyError\<close> at its first detector and changes nothing.  A scan frame with a
  detector id that is absent from the table raises \<^verbatim>\<open>KeyError\<close> when the loop reaches the
  first such detector (the detectors before it having been binned without an exception):
  the accumulator is then the one left by the detectors before it, whose samples stay in
  both grids, so it is the accumulator before the call when no detector precedes.  The
  boresight field of the frame is present and \<^verbatim>\<open>from_quat\<close> accepts its quaternions.
\<close>

theorem scan_aborts_at_first_unknown_detector:
  assumes "ftype f = Scan" and "signal f = Some raw_signal"
    and "shared_boresight_radec f = Some boresight_q"
    and "from_quats (map scalar_last boresight_q) = Inr boresight_r"
  shows "(raw_signal \<noteq> [] \<and> det_offset_dict acc = Map.empty
            \<longrightarrow> Process acc f = (acc, Raised KeyError))
       \<and> (raw_signal = pre @ (kid, y_raw) # post \<and> det_offset_dict acc kid = None
          \<and> scan_loop acc f boresight_r pre = (acc1, None)
            \<longrightarrow> Process acc f = (acc1, Raised KeyError)
              \<and> (pre = [] \<longrightarrow> acc1 = acc)
              \<and> (acc_ok acc \<longrightarrow>
                   (\<forall>i j. i < length (dec_edges acc) - 1 \<and> j < length (ra_edges acc) - 1 \<longrightarrow>
                      hits_map acc1 ! i ! j = hits_map acc ! i ! j
                        + (\<Sum>d\<leftarrow>pre. int (length (filter (in_pixel (dec_edges acc) (ra_edges acc) i j)
                              (detector_samples (det_offset_dict acc) f boresight_r d))))
                    \<and> sky_map acc1 ! i ! j = sky_map acc ! i ! j
                        + (\<Sum>d\<leftarrow>pre. sum_list (map weight (filter (in_pixel (dec_edges acc) (ra_edges acc) i j)
                              (detector_samples (det_offset_dict acc) f boresight_r d)))))))"
proof (intro conjI impI)
  assume h: "raw_signal \<noteq> [] \<and> det_offset_dict acc = Map.empty"
  then obtain d rest where "raw_signal = d # rest" by (cases raw_signal) auto
  moreover obtain k y where "d = (k, y)" by (cases d)
  ultimately show "Process acc f = (acc, Raised KeyError)"
    using assms h by (simp add: Process_def bin_detector_unknown)
next
  assume h: "raw_signal = pre @ (kid, y_raw) # post \<and> det_offset_dict acc kid = None
          \<and> scan_loop acc f boresight_r pre = (acc1, None)"
  then have "det_offset_dict acc1 kid = None"
    using scan_loop_keeps [of acc f boresight_r pre acc1 None] by simp
  then have "scan_loop acc f boresight_r raw_signal = (acc1, Some KeyError)"
    using h by (simp add: scan_loop_append bin_detector_unknown)
  then show "Process acc f = (acc1, Raised KeyError)"
    using assms by (simp add: Process_def)
  { assume "pre = []"
    with h show "acc1 = acc" by simp }
  { assume "acc_ok acc"
    with h scan_loop_effect [of acc f boresight_r pre acc1]
    show "\<forall>i j. i < length (dec_edges acc) - 1 \<and> j < length (ra_edges acc) - 1 \<longrightarrow>
                      hits_map acc1 ! i ! j = hits_map acc ! i ! j
                        + (\<Sum>d\<leftarrow>pre. int (length (filter (in_pixel (dec_edges acc) (ra_edges acc) i j)
                              (detector_samples (det_offset_dict acc) f boresight_r d))))
                    \<and> sky_map acc1 ! i ! j = sky_map acc ! i ! j
                        + (\<Sum>d\<leftarrow>pre. sum_list (map weight (filter (in_pixel (dec_edges acc) (ra_edges acc) i j)
                              (detector_samples (det_offset_dict acc) f boresight_r d))))"
      by simp }
qed

theorem scan_aborts_at_first_unknown_detector_witness:
  "det_offset_dict acc0 ''a'' = None
   \<and> Process acc0 (scan_of [(''a'', [3, 5])]) = (acc0, Raised KeyError)
   \<and> det_offset_dict acc_cal ''b'' = None
   \<and> scan_loop acc_cal (scan_of [(''a'', [3, 5]), (''b'', [1, 1])])
        [(1 / 2, 1 / 2, 1 / 2, 1 / 2), (0, 0, 0, 1)] [(''a'', [3, 5])] = (acc_hit, None)
   \<and> Process acc_cal (scan_of [(''a'', [3, 5]), (''b'', [1, 1])]) = (acc_hit, Raised KeyError)"
proof -
  have loop: "scan_loop acc_cal (scan_of [(''a'', [3, 5]), (''b'', [1, 1])])
        [(1 / 2, 1 / 2, 1 / 2, 1 / 2), (0, 0, 0, 1)] [(''a'', [3, 5])] = (acc_hit, None)"
    by (simp, subst bin_detector_a [of _ 0 0 0 0 0 0 0 0])
      (simp_all add: acc_cal_def acc0_def acc_hit_def)
  have b: "det_offset_dict acc_cal ''b'' = None"
    by (simp add: acc_cal_def)
  have e: "det_offset_dict acc0 = Map.empty"
    by (simp add: acc0_def)
  show ?thesis
    using
      scan_aborts_at_first_unknown_detector [OF scan_of_fields from_quats_boresight2,
        of "[(''a'', [3, 5])]" acc0 "[]" "''a''" "[3, 5]" "[]" acc0]
      scan_aborts_at_first_unknown_detector [OF scan_of_fields from_quats_boresight2,
        of "[(''a'', [3, 5]), (''b'', [1, 1])]" acc_cal "[(''a'', [3, 5])]" "''b''" "[1, 1]" "[]" acc_hit]
      loop b e
    by simp
qed

theorem partial_binning_counterexample:
  "det_offset_dict acc_cal ''b'' = None
   \<and> snd (Process acc_cal (scan_of [(''a'', [3, 5]), (''b'', [1, 1])])) = Raised KeyError
   \<and> hits_map (fst (Process acc_cal (scan_of [(''a'', [3, 5]), (''b'', [1, 1])]))) ! 1 ! 1
       = hits_map acc_cal ! 1 ! 1 + 1
   \<and> sky_map (fst (Process acc_cal (scan_of [(''a'', [3, 5]), (''b'', [1, 1])]))) ! 1 ! 1
       = sky_map acc_cal ! 1 ! 1 + 3"
  by (simp add: Process_scan_ab) (simp add: acc_hit_def acc_cal_def acc0_def)

subsection \<open>End of the stream\<close>

lemma final_map_shape:
  "grid_shape (hits_map acc) r c \<Longrightarrow> grid_shape (sky_map acc) r c \<Longrightarrow> grid_shape (final_map acc) r c"
  by (simp add: grid_shape_def final_map_def list_all_length)

lemma final_map_nth:
  "grid_shape (hits_map acc) r c \<Longrightarrow> grid_shape (sky_map acc) r c \<Longrightarrow> i < r \<Longrightarrow> j < c \<Longrightarrow>
     final_map acc ! i ! j = (if 0 < hits_map acc ! i ! j then sky_map acc ! i ! j else 0)"
  by (simp add: grid_shape_def final_map_def list_all_length)

lemma acc_ok_two: "acc_ok acc_two"
  by (simp add: acc_ok_def grid_shape_def acc_two_def acc_hit_def acc_cal_def acc0_def)

lemma final_map_two: "final_map acc_two = [[0, 0], [0, 2]]"
  by (simp add: final_map_def acc_two_def)

lemma edges_two:
  "ra_edges acc_two = [- (1 / 2), 0, 1 / 2]" "dec_edges acc_two = [- (1 / 2), 0, 1 / 2]"
  by (simp_all add: acc_two_def acc_hit_def acc_cal_def acc0_def)

lemma Process_end_two:
  "Process acc_two (frame_of EndProcessing) =
     (acc_two, Returned (Some (frame_of EndProcessing))
        (Some ([[0, 0], [0, 2]], (- (1 / 2), 1 / 2, - (1 / 2), 1 / 2))))"
  by (simp add: Process_def final_map_two edges_two) (simp add: frame_of_def)

text \<open>
  Claim C2.  At the end of the stream the grid that is produced has the shape of the two
  accumulated grids and holds, at every pixel, the accumulated sum where the hit count
  is positive and \<open>0\<close> elsewhere: the sum is masked, and it is not divided by the hit
  count.
\<close>

theorem final_map_is_masked_sum:
  assumes "acc_ok acc" and "ftype f = EndProcessing"
  shows "Process acc f =
           (acc, Returned (Some f)
              (Some (final_map acc,
                     (hd (ra_edges acc), last (ra_edges acc),
                      hd (dec_edges acc), last (dec_edges acc)))))
       \<and> grid_shape (final_map acc) (length (dec_edges acc) - 1) (length (ra_edges acc) - 1)
       \<and> (\<forall>i j. i < length (dec_edges acc) - 1 \<and> j < length (ra_edges acc) - 1 \<longrightarrow>
            final_map acc ! i ! j = (if 0 < hits_map acc ! i ! j then sky_map acc ! i ! j else 0))"
proof -
  from assms(1) have ne: "ra_edges acc \<noteq> []" "dec_edges acc \<noteq> []"
    and sh: "grid_shape (hits_map acc) (length (dec_edges acc) - 1) (length (ra_edges acc) - 1)"
    and ss: "grid_shape (sky_map acc) (length (dec_edges acc) - 1) (length (ra_edges acc) - 1)"
    by (simp_all add: acc_ok_def)
  have "Process acc f =
           (acc, Returned (Some f)
              (Some (final_map acc,
                     (hd (ra_edges acc), last (ra_edges acc),
                      hd (dec_edges acc), last (dec_edges acc)))))"
    using assms(2) ne by (simp add: Process_def)
  moreover note final_map_shape [OF sh ss]
  moreover have "final_map acc ! i ! j = (if 0 < hits_map acc ! i ! j then sky_map acc ! i ! j else 0)"
    if "i < length (dec_edges acc) - 1" and "j < length (ra_edges acc) - 1" for i j
    using sh ss that by (rule final_map_nth)
  ultimately show ?thesis by blast
qed

theorem final_map_is_masked_sum_witness:
  "acc_ok acc_two \<and> hits_map acc_two ! 1 ! 1 = 2 \<and> sky_map acc_two ! 1 ! 1 = 2
   \<and> plot_of (snd (Process acc_two (frame_of EndProcessing)))
       = Some (final_map acc_two, (- (1 / 2), 1 / 2, - (1 / 2), 1 / 2))
   \<and> final_map acc_two ! 1 ! 1 = 2 \<and> final_map acc_two ! 0 ! 0 = 0"
  using final_map_is_masked_sum [OF acc_ok_two, of "frame_of EndProcessing"] acc_ok_two
  by (simp add: edges_two plot_of_def) (simp add: frame_of_def acc_two_def)

text \<open>
  Claim C8.  Handling the end of the stream leaves the accumulator as it was, and
  handling it a second time shows the same grid and extent as the first time.
\<close>

theorem finalize_idempotent:
  assumes "ftype f = EndProcessing" and "ftype g = EndProcessing"
  shows "fst (Process acc f) = acc
       \<and> plot_of (snd (Process (fst (Process acc f)) g)) = plot_of (snd (Process acc f))"
  using assms by (simp add: Process_def plot_of_def)

theorem finalize_idempotent_witness:
  "ftype (frame_of EndProcessing) = EndProcessing
   \<and> fst (Process acc_two (frame_of EndProcessing)) = acc_two
   \<and> plot_of (snd (Process (fst (Process acc_two (frame_of EndProcessing))) (frame_of EndProcessing)))
       = Some ([[0, 0], [0, 2]], (- (1 / 2), 1 / 2, - (1 / 2), 1 / 2))"
  using finalize_idempotent [of "frame_of EndProcessing" "frame_of EndProcessing" acc_two]
  by (simp add: Process_end_two plot_of_def) (simp add: frame_of_def)

subsection \<open>Dispatch on the frame type\<close>

text \<open>
  Claim C9, as amended.  A frame whose type is none of Calibration, Scan and
  EndProcessing changes nothing, raises nothing, and \<^verbatim>\<open>Process\<close> returns Python's
  \<^verbatim>\<open>None\<close> for it, not the frame.  For a frame of one of the three types, a call that
  returns (one that does not raise) returns that same frame.
\<close>

theorem other_frames_pass_as_none:
  "(ftype f \<noteq> Calibration \<and> ftype f \<noteq> Scan \<and> ftype f \<noteq> EndProcessing
      \<longrightarrow> Process acc f = (acc, Returned None None))
   \<and> ((ftype f = Calibration \<or> ftype f = Scan \<or> ftype f = EndProcessing)
      \<and> Process acc f = (acc', Returned r p) \<longrightarrow> r = Some f)"
  by (auto simp: Process_def split: option.splits h5_blob.splits sum.splits prod.splits if_splits)

theorem other_frames_pass_as_none_witness:
  "ftype (frame_of Wiring) = Wiring
   \<and> Process acc_cal (frame_of Wiring) = (acc_cal, Returned None None)
   \<and> Process acc_cal (scan_of [(''a'', [3, 5])])
       = (acc_hit, Returned (Some (scan_of [(''a'', [3, 5])])) None)"
  using other_frames_pass_as_none [of "frame_of Wiring" acc_cal]
    other_frames_pass_as_none [of "scan_of [(''a'', [3, 5])]" acc_cal acc_hit
      "Some (scan_of [(''a'', [3, 5])])" None]
    Process_scan_a
  by (simp add: frame_of_def)

theorem returns_none_counterexample:
  "snd (Process acc_cal (frame_of Wiring)) = Returned None None
   \<and> snd (Process acc_cal (frame_of Wiring)) \<noteq> Returned (Some (frame_of Wiring)) None"
  by (simp add: Process_def frame_of_def)

text \<open>
  Claim C10, as amended.  A scan frame with no detector in its signal mapping never changes
  the accumulator, whatever the offset table holds.  It is returned without an exception
  when its boresight field is present and holds no quaternion of norm zero.  Without the
  boresight field it raises \<^verbatim>\<open>KeyError\<close>, and with a boresight quaternion of norm zero
  \<^verbatim>\<open>ValueError\<close>: both are read before the loop over the detectors.
\<close>

theorem empty_scan_accepted:
  assumes "ftype f = Scan" and "signal f = Some []"
  shows "fst (Process acc f) = acc
       \<and> (shared_boresight_radec f = Some boresight_q
          \<and> list_all (\<lambda>q. quat_norm q \<noteq> 0) boresight_q
            \<longrightarrow> Process acc f = (acc, Returned (Some f) None))
       \<and> (shared_boresight_radec f = None \<longrightarrow> Process acc f = (acc, Raised KeyError))
       \<and> (shared_boresight_radec f = Some boresight_q
          \<and> \<not> list_all (\<lambda>q. quat_norm q \<noteq> 0) boresight_q
            \<longrightarrow> Process acc f = (acc, Raised ValueError))"
proof -
  have n: "quat_norm (scalar_last q) = quat_norm q" for q
    by (cases q) (simp add: quat_norm_def scalar_last_def add.commute add.left_commute)
  have ok: "\<exists>rs. from_quats (map scalar_last qs) = Inr rs"
    if "list_all (\<lambda>q. quat_norm q \<noteq> 0) qs" for qs
    using that by (induction qs) (auto simp: from_quat_def n split: prod.splits)
  have bad: "from_quats (map scalar_last qs) = Inl ValueError"
    if "\<not> list_all (\<lambda>q. quat_norm q \<noteq> 0) qs" for qs
    using that by (induction qs) (auto simp: from_quat_def n split: prod.splits sum.splits)
  have 1: "fst (Process acc f) = acc"
    using assms by (auto simp: Process_def split: option.splits sum.splits)
  have 2: "Process acc f = (acc, Returned (Some f) None)"
    if "shared_boresight_radec f = Some boresight_q \<and> list_all (\<lambda>q. quat_norm q \<noteq> 0) boresight_q"
    using that assms ok [of boresight_q] by (auto simp: Process_def)
  have 3: "Process acc f = (acc, Raised KeyError)" if "shared_boresight_radec f = None"
    using that assms by (simp add: Process_def)
  have 4: "Process acc f = (acc, Raised ValueError)"
    if "shared_boresight_radec f = Some boresight_q
          \<and> \<not> list_all (\<lambda>q. quat_norm q \<noteq> 0) boresight_q"
    using that assms bad [of boresight_q] by (simp add: Process_def)
  from 1 2 3 4 show ?thesis by blast
qed

theorem empty_scan_accepted_witness:
  "ftype (scan_of []) = Scan \<and> signal (scan_of []) = Some []
   \<and> det_offset_dict acc0 ''a'' = None
   \<and> Process acc0 (scan_of []) = (acc0, Returned (Some (scan_of [])) None)"
  using empty_scan_accepted [of "scan_of []" acc0 boresight2]
  by (simp add: boresight2_def quat_norm_def scan_of_fields) (simp add: acc0_def)

theorem empty_scan_raises_counterexample:
  "ftype empty_scan_no_boresight = Scan \<and> signal empty_scan_no_boresight = Some []
   \<and> Process acc_cal empty_scan_no_boresight = (acc_cal, Raised KeyError)
   \<and> ftype empty_scan_zero_boresight = Scan \<and> signal empty_scan_zero_boresight = Some []
   \<and> Process acc_cal empty_scan_zero_boresight = (acc_cal, Raised ValueError)"
  by (simp add: Process_def empty_scan_no_boresight_def empty_scan_zero_boresight_def
      scalar_last_def from_quat_def quat_norm_def)

subsection \<open>Calibration frames\<close>

lemma dict_of_zip_fold:
  "fold (\<lambda>(name, q) m. m(name \<mapsto> q)) ps m0 = m0 ++ map_of (rev ps)"
  by (induction ps arbitrary: m0) (auto simp: map_add_def fun_eq_iff split: option.splits)

lemma dict_of_zip_map_of: "dict_of_zip names quats = map_of (rev (zip names quats))"
  by (simp add: dict_of_zip_def dict_of_zip_fold)

text \<open>
  Claim C6, as amended.  A calibration frame whose blob cannot be read raises the reader's
  exception and leaves the accumulator, its offset table included, as it was; so does
  every calibration frame that raises.  A blob that can be read never fails, also when
  its two columns differ in length: the new table is built from the pairs of
  \<^verbatim>\<open>zip(names, quats)\<close>, which stop at the shorter column, a later pair overriding an
  earlier one of the same name, and it replaces the previous table as a whole.
\<close>

theorem calibration_replaces_table:
  assumes "ftype f = Calibration"
  shows "(focalplane f = Some (Malformed e) \<longrightarrow> Process acc f = (acc, Raised e))
       \<and> (focalplane f = Some (FocalPlane names quats) \<longrightarrow>
            Process acc f =
              (acc\<lparr>det_offset_dict := map_of (rev (zip names quats))\<rparr>, Returned (Some f) None)
            \<and> dom (map_of (rev (zip names quats)) :: string \<rightharpoonup> quat)
                = set (take (min (length names) (length quats)) names))
       \<and> (Process acc f = (acc', Raised e') \<longrightarrow> acc' = acc)"
proof -
  have "dom (map_of (rev (zip names quats)) :: string \<rightharpoonup> quat)
      = set (take (min (length names) (length quats)) names)"
    by (simp add: dom_map_of_conv_image_fst set_map [symmetric] map_fst_zip_take del: set_map)
  with assms show ?thesis
    by (auto simp: Process_def dict_of_zip_map_of split: option.splits h5_blob.splits)
qed

theorem calibration_replaces_table_witness:
  "Process acc_cal (cal_of (Malformed OSError)) = (acc_cal, Raised OSError)
   \<and> Process acc_cal (cal_of (FocalPlane [''b''] [(0, 0, 0, 1)]))
       = (acc_cal\<lparr>det_offset_dict := map_of (rev (zip [''b''] [(0, 0, 0, 1)]))\<rparr>,
          Returned (Some (cal_of (FocalPlane [''b''] [(0, 0, 0, 1)]))) None)
   \<and> det_offset_dict acc_cal ''a'' = Some (0, 0, 0, 1)
   \<and> det_offset_dict (fst (Process acc_cal (cal_of (FocalPlane [''b''] [(0, 0, 0, 1)])))) ''a'' = None"
  using calibration_replaces_table [of "cal_of (Malformed OSError)" OSError acc_cal]
    calibration_replaces_table [of "cal_of (FocalPlane [''b''] [(0, 0, 0, 1)])" _ acc_cal
      "[''b'']" "[(0, 0, 0, 1)]"]
  by (simp add: cal_of_def acc_cal_def)

theorem mismatched_columns_counterexample:
  "length [''a'', ''b''] \<noteq> length [(0, 0, 0, 1) :: quat]
   \<and> Process acc0 (cal_of (FocalPlane [''a'', ''b''] [(0, 0, 0, 1)]))
       = (acc_cal, Returned (Some (cal_of (FocalPlane [''a'', ''b''] [(0, 0, 0, 1)]))) None)"
  by (simp add: Process_def cal_of_def dict_of_zip_def acc_cal_def)

subsection \<open>Pointing\<close>

lemma quat_norm_from_quat:
  assumes "from_quat q = Inr r"
  shows "quat_norm r = 1"
proof -
  obtain x y z w where q: "q = (x, y, z, w)" by (cases q)
  define s where "s = x * x + y * y + z * z + w * w"
  have s0: "0 \<le> s" by (simp add: s_def)
  from assms q have n0: "sqrt s \<noteq> 0" and r: "r = (x / sqrt s, y / sqrt s, z / sqrt s, w / sqrt s)"
    by (auto simp: from_quat_def quat_norm_def s_def split: if_splits)
  from n0 s0 have sp: "s \<noteq> 0" by auto
  have "x / n * (x / n) + y / n * (y / n) + z / n * (z / n) + w / n * (w / n)
        = (x * x + y * y + z * z + w * w) / (n * n)" for n :: real
    by (simp add: add_divide_distrib)
  then have "x / sqrt s * (x / sqrt s) + y / sqrt s * (y / sqrt s) + z / sqrt s * (z / sqrt s)
        + w / sqrt s * (w / sqrt s) = s / (sqrt s * sqrt s)"
    by (simp only: s_def)
  also have "\<dots> = 1" using s0 sp by simp
  finally show ?thesis by (simp add: r quat_norm_def)
qed

lemma quat_norm_compose: "quat_norm (compose_quat p q) = quat_norm p * quat_norm q"
proof -
  obtain a b c d where p: "p = (a, b, c, d)" by (cases p)
  obtain e f g h where q: "q = (e, f, g, h)" by (cases q)
  show ?thesis
    unfolding p q quat_norm_def compose_quat_def prod.case real_sqrt_mult [symmetric]
    by (rule arg_cong [where f = sqrt]) (simp add: algebra_simps)
qed

lemma rot_apply_compose: "rot_apply (compose_quat p q) v = rot_apply p (rot_apply q v)"
proof -
  obtain a b c d where p: "p = (a, b, c, d)" by (cases p)
  obtain e f g h where q: "q = (e, f, g, h)" by (cases q)
  obtain x y z where v: "v = (x, y, z)" by (cases v)
  show ?thesis
    unfolding p q v rot_apply_def compose_quat_def prod.case
    by (simp add: algebra_simps)
qed

lemma rot_mul_unit:
  assumes "quat_norm p = 1" and "quat_norm q = 1"
  shows "rot_mul p q = Inr (compose_quat p q)"
proof -
  have "quat_norm (compose_quat p q) = 1"
    using assms by (simp add: quat_norm_compose)
  then show ?thesis
    by (cases "compose_quat p q") (simp add: rot_mul_def from_quat_def)
qed

lemma rot_mul_all_unit:
  "\<forall>b\<in>set br. quat_norm b = 1 \<Longrightarrow> quat_norm d = 1 \<Longrightarrow>
     rot_mul_all br d = Inr (map (\<lambda>b. compose_quat b d) br)"
  by (induction br) (simp_all add: rot_mul_unit)

lemma from_quats_unit: "from_quats qs = Inr rs \<Longrightarrow> \<forall>r\<in>set rs. quat_norm r = 1"
  by (induction qs arbitrary: rs) (auto split: sum.splits dest: quat_norm_from_quat)

text \<open>The rotation matrix that scipy builds from the normalised quaternion is the
  conjugation \<open>v \<mapsto> q v q\<^sup>-\<^sup>1\<close> by the quaternion itself.\<close>

lemma rot_apply_scaled:
  assumes "n \<noteq> 0"
  shows "rot_apply (x / n, y / n, z / n, w / n) (a, b, c) =
     (fst (rot_apply (x, y, z, w) (a, b, c)) / (n * n),
      fst (snd (rot_apply (x, y, z, w) (a, b, c))) / (n * n),
      snd (snd (rot_apply (x, y, z, w) (a, b, c))) / (n * n))"
  using assms by (simp add: rot_apply_def field_simps)

lemma quat_rotate_rot_apply:
  "quat_rotate (w, x, y, z) (a, b, c) =
     (fst (rot_apply (x, y, z, w) (a, b, c)) / (w * w + x * x + y * y + z * z),
      fst (snd (rot_apply (x, y, z, w) (a, b, c))) / (w * w + x * x + y * y + z * z),
      snd (snd (rot_apply (x, y, z, w) (a, b, c))) / (w * w + x * x + y * y + z * z))"
proof -
  have 1: "fst (rot_apply (x, y, z, w) (a, b, c)) =
      fst (snd (qmul (qmul (w, x, y, z) (0, a, b, c)) (w, - x, - y, - z)))"
    by (simp add: rot_apply_def qmul_def algebra_simps)
  have 2: "fst (snd (rot_apply (x, y, z, w) (a, b, c))) =
      fst (snd (snd (qmul (qmul (w, x, y, z) (0, a, b, c)) (w, - x, - y, - z))))"
    by (simp add: rot_apply_def qmul_def algebra_simps)
  have 3: "snd (snd (rot_apply (x, y, z, w) (a, b, c))) =
      snd (snd (snd (qmul (qmul (w, x, y, z) (0, a, b, c)) (w, - x, - y, - z))))"
    by (simp add: rot_apply_def qmul_def algebra_simps)
  show ?thesis
    unfolding 1 2 3 by (simp add: quat_rotate_def split: prod.splits)
qed

lemma rot_apply_from_quat:
  assumes "from_quat p = Inr r"
  shows "rot_apply r v = quat_rotate (scalar_first p) v"
proof -
  obtain x y z w where p: "p = (x, y, z, w)" by (cases p)
  obtain a b c where v: "v = (a, b, c)" by (cases v)
  define s where "s = x * x + y * y + z * z + w * w"
  have s0: "0 \<le> s" by (simp add: s_def)
  from assms p have n0: "sqrt s \<noteq> 0" and r: "r = (x / sqrt s, y / sqrt s, z / sqrt s, w / sqrt s)"
    by (auto simp: from_quat_def quat_norm_def s_def split: if_splits)
  have ss: "sqrt s * sqrt s = s" using s0 by simp
  have s': "w * w + x * x + y * y + z * z = s" by (simp add: s_def)
  show ?thesis
    unfolding r v p scalar_first_def prod.case rot_apply_scaled [OF n0] quat_rotate_rot_apply ss s'
    by (rule refl)
qed

lemma scalar_first_last: "scalar_first (scalar_last q) = q"
  by (cases q) (simp add: scalar_first_def scalar_last_def)

lemma from_quats_map:
  "from_quats (map g qs) = Inr rs \<Longrightarrow>
     map (\<lambda>r. h (rot_apply r v)) rs = map (\<lambda>q. h (quat_rotate (scalar_first (g q)) v)) qs"
  by (induction qs arbitrary: rs) (auto split: sum.splits simp: rot_apply_from_quat)

lemma py_int_small: "\<bar>t\<bar> < 1 \<Longrightarrow> py_int t = 0"
  by (auto simp: py_int_def floor_eq_iff ceiling_eq_iff)

lemma py_mod_360: "- 180 < a \<Longrightarrow> a \<le> 180 \<Longrightarrow> py_mod a 360 = wrap360 a"
proof -
  assume a: "- 180 < a" "a \<le> 180"
  then have "\<bar>a / 360\<bar> < 1" by simp
  then have "py_int (a / 360) = 0" by (rule py_int_small)
  then show ?thesis by (auto simp: py_mod_def wrap360_def Let_def)
qed

lemma arctan2_bounds: "- pi < arctan2 y x \<and> arctan2 y x \<le> pi"
proof -
  have lb: "- (pi / 2) < arctan (y / x)" and ub: "arctan (y / x) < pi / 2"
    by (rule arctan_lbound, rule arctan_ubound)
  have neg: "arctan (y / x) \<le> 0" if "x < 0" "0 \<le> y"
    using that by (simp add: arctan_le_zero_iff divide_nonneg_neg)
  have pos: "0 < arctan (y / x)" if "x < 0" "y < 0"
    using that by (simp add: zero_less_arctan_iff divide_neg_neg)
  show ?thesis
    using lb ub neg pos pi_gt_zero by (auto simp: arctan2_def)
qed

lemma degrees_arctan2_bounds: "- 180 < degrees (arctan2 y x) \<and> degrees (arctan2 y x) \<le> 180"
  using arctan2_bounds [of y x] pi_gt_zero by (simp add: degrees_def field_simps)

lemma radec_spec: "radec v = spec_radec v"
  by (cases v) (simp add: radec_def spec_radec_def py_mod_360 degrees_arctan2_bounds)

lemma wrap360_range: "- 180 < a \<Longrightarrow> a \<le> 180 \<Longrightarrow> 0 \<le> wrap360 a \<and> wrap360 a \<le> 360"
proof (cases "a < 0")
  case False
  assume "- 180 < a" "a \<le> 180"
  with False show ?thesis by (simp add: wrap360_def)
next
  case True
  assume a: "- 180 < a" "a \<le> 180"
  show ?thesis
  proof (cases "a + 360 < 256")
    case True
    with a fl_low [of "a + 360"] \<open>a < 0\<close> show ?thesis by (simp add: wrap360_def)
  next
    case False
    with a fl_high [of "a + 360"] \<open>a < 0\<close> show ?thesis by (simp add: wrap360_def)
  qed
qed

lemma spec_ra_range: "0 \<le> fst (spec_radec v) \<and> fst (spec_radec v) \<le> 360"
  using degrees_arctan2_bounds [of "fst (snd v)" "fst v"]
  by (cases v) (simp add: spec_radec_def wrap360_range)

lemma detector_radec_pointing:
  assumes "from_quats (map scalar_last boresight_q) = Inr boresight_r"
    and "from_quat det_q = Inr det_r"
  shows "detector_radec boresight_r det_q = Inr (map (\<lambda>q. pointing q det_q) boresight_q)"
proof -
  have ub: "\<forall>b\<in>set boresight_r. quat_norm b = 1"
    using assms(1) by (rule from_quats_unit)
  have ud: "quat_norm det_r = 1"
    using assms(2) by (rule quat_norm_from_quat)
  have "detector_radec boresight_r det_q =
      Inr (map (\<lambda>r. radec (rot_apply r z_axis)) (map (\<lambda>b. compose_quat b det_r) boresight_r))"
    by (simp add: detector_radec_def assms(2) rot_mul_all_unit [OF ub ud])
  also have "map (\<lambda>r. radec (rot_apply r z_axis)) (map (\<lambda>b. compose_quat b det_r) boresight_r)
      = map (\<lambda>r. spec_radec (rot_apply r (quat_rotate (scalar_first det_q) z_axis))) boresight_r"
    by (simp add: comp_def rot_apply_compose radec_spec rot_apply_from_quat [OF assms(2)])
  also have "\<dots> = map (\<lambda>q. spec_radec (quat_rotate (scalar_first (scalar_last q))
                         (quat_rotate (scalar_first det_q) z_axis))) boresight_q"
    using assms(1) by (rule from_quats_map)
  finally show ?thesis
    by (simp add: pointing_def scalar_first_last comp_def)
qed


lemma from_quats_nonzero:
  "list_all (\<lambda>q. quat_norm q \<noteq> 0) qs \<Longrightarrow> \<exists>rs. from_quats qs = Inr rs"
  by (induction qs) (auto simp: from_quat_def split: prod.splits)

lemma scan_loop_detectors:
  "scan_loop acc f br kids = (acc', None) \<Longrightarrow> (kid, y_raw) \<in> set kids \<Longrightarrow>
     \<exists>det_q pts. det_offset_dict acc kid = Some det_q \<and> detector_radec br det_q = Inr pts"
proof (induction kids arbitrary: acc)
  case Nil
  then show ?case by simp
next
  case (Cons d kids)
  obtain k y where d: "d = (k, y)" by (cases d)
  obtain acc1 r1 where b: "bin_detector acc f br k y = (acc1, r1)"
    by (cases "bin_detector acc f br k y")
  from Cons.prems(1) d b have r1: "r1 = None" by (cases r1) simp_all
  with Cons.prems(1) d b have rest: "scan_loop acc1 f br kids = (acc', None)" by simp
  from b r1 have b': "bin_detector acc f br k y = (acc1, None)" by simp
  show ?case
  proof (cases "(kid, y_raw) = d")
    case True
    with bin_detector_ok [OF b'] d show ?thesis by auto
  next
    case False
    with Cons.prems(2) have "(kid, y_raw) \<in> set kids" by simp
    from Cons.IH [OF rest this] bin_detector_keeps [OF b] show ?thesis by simp
  qed
qed

lemma detector_radec_from_quat:
  "detector_radec br det_q = Inr pts \<Longrightarrow> \<exists>det_r. from_quat det_q = Inr det_r"
  by (auto simp: detector_radec_def split: sum.splits)

text \<open>
  Claim C4, as amended.  In a scan frame that is processed without an exception, every
  detector of the frame has an offset in the table, and the samples that are binned for it
  are, for each boresight quaternion \<open>q\<close> of the frame (scalar first), the reconstructed
  value at the sky angles of the vector obtained by applying to \<open>(0, 0, 1)\<close> first the
  rotation of the offset and then the rotation of \<open>q\<close> (the composition boresight after
  offset): \<open>ra\<close> is \<open>atan2(vy, vx)\<close> in degrees, raised by \<open>360\<close> when it is negative, and
  \<open>dec\<close> is \<open>asin(vz)\<close> in degrees.  The right ascension lies in \<open>[0, 360]\<close>; the upper
  end is reached, because the sum with \<open>360\<close> is rounded.
\<close>

theorem pointing_is_boresight_after_offset:
  assumes "ftype f = Scan" and "signal f = Some raw_signal"
    and "shared_boresight_radec f = Some boresight_q"
    and "from_quats (map scalar_last boresight_q) = Inr boresight_r"
    and "Process acc f = (acc', Returned v p)"
    and "(kid, y_raw) \<in> set raw_signal"
  shows "det_offset_dict acc kid \<noteq> None
       \<and> detector_samples (det_offset_dict acc) f boresight_r (kid, y_raw)
           = zip (map (\<lambda>q. snd (pointing q (the (det_offset_dict acc kid)))) boresight_q)
               (zip (map (\<lambda>q. fst (pointing q (the (det_offset_dict acc kid)))) boresight_q)
                    (reconstruct f kid y_raw))
       \<and> list_all (\<lambda>q. 0 \<le> fst (pointing q (the (det_offset_dict acc kid)))
                     \<and> fst (pointing q (the (det_offset_dict acc kid))) \<le> 360) boresight_q"
proof -
  have loop: "scan_loop acc f boresight_r raw_signal = (acc', None)"
    using assms(1-5) by (rule Process_scan_ok)
  from scan_loop_detectors [OF loop assms(6)] obtain det_q pts where
    dq: "det_offset_dict acc kid = Some det_q" and pts: "detector_radec boresight_r det_q = Inr pts"
    by blast
  from detector_radec_from_quat [OF pts] obtain det_r where "from_quat det_q = Inr det_r" ..
  from detector_radec_pointing [OF assms(4) this]
  have eq: "detector_radec boresight_r det_q = Inr (map (\<lambda>q. pointing q det_q) boresight_q)" .
  show ?thesis
    by (simp add: dq detector_samples_def eq comp_def list_all_iff pointing_def spec_ra_range)
qed

lemma bin_index_180: "bin_index [- (1 / 2), 0, 1 / 2] 180 = None"
  by (simp add: bin_index_def)

lemma bin_index_m90: "bin_index [- (1 / 2), 0, 1 / 2] (- 90) = None"
  by (simp add: bin_index_def)

lemma pointing_flip:
  "pointing (1 / 2, 1 / 2, 1 / 2, 1 / 2) (2, 0, 0, 0) = (180, 0)"
  "pointing (1, 0, 0, 0) (2, 0, 0, 0) = (0, - 90)"
  by (simp_all add: pointing_def quat_rotate_def qmul_def scalar_first_def z_axis_def
      spec_radec_def arctan2_def degrees_def wrap360_def)

lemma detector_radec_flip:
  "detector_radec [(1 / 2, 1 / 2, 1 / 2, 1 / 2), (0, 0, 0, 1)] (2, 0, 0, 0) = Inr [(180, 0), (0, - 90)]"
proof -
  have "from_quat (2, 0, 0, 0) = Inr (1, 0, 0, 0)"
    by (simp add: from_quat_def quat_norm_def)
  from detector_radec_pointing [OF from_quats_boresight2 this] show ?thesis
    by (simp add: boresight2_def pointing_flip)
qed

lemma Process_scan_flip:
  "Process acc_flip (scan_of [(''a'', [3, 5])]) =
     (acc_flip, Returned (Some (scan_of [(''a'', [3, 5])])) None)"
proof -
  have "bin_detector acc_flip (scan_of [(''a'', [3, 5])])
          [(1 / 2, 1 / 2, 1 / 2, 1 / 2), (0, 0, 0, 1)] ''a'' [3, 5] = (acc_flip, None)"
    by (simp add: bin_detector_def reconstruct_def scan_of_def detector_radec_flip
        histogram2d_def hist_grid_def bin_index_180 bin_index_m90 bin_index_0 upt_2 add_grid_def
        astype_int_def py_int_def Let_def acc_flip_def acc0_def)
  then show ?thesis
    by (simp add: Process_def scan_of_fields from_quats_boresight2)
qed

theorem pointing_is_boresight_after_offset_witness:
  "Process acc_flip (scan_of [(''a'', [3, 5])]) =
     (acc_flip, Returned (Some (scan_of [(''a'', [3, 5])])) None)
   \<and> det_offset_dict acc_flip ''a'' = Some (2, 0, 0, 0)
   \<and> (quat_rotate (1 / 2, 1 / 2, 1 / 2, 1 / 2) \<circ> quat_rotate (scalar_first (2, 0, 0, 0))) z_axis
       = (- 1, 0, 0)
   \<and> (quat_rotate (scalar_first (2, 0, 0, 0)) \<circ> quat_rotate (1 / 2, 1 / 2, 1 / 2, 1 / 2)) z_axis
       = (1, 0, 0)
   \<and> detector_samples (det_offset_dict acc_flip) (scan_of [(''a'', [3, 5])])
        [(1 / 2, 1 / 2, 1 / 2, 1 / 2), (0, 0, 0, 1)] (''a'', [3, 5]) = [(0, 180, 3), (- 90, 0, 5)]"
proof -
  have d: "det_offset_dict acc_flip ''a'' = Some (2, 0, 0, 0)"
    by (simp add: acc_flip_def)
  have r1: "(quat_rotate (1 / 2, 1 / 2, 1 / 2, 1 / 2) \<circ> quat_rotate (scalar_first (2, 0, 0, 0))) z_axis
       = (- 1, 0, 0)"
    by (simp add: quat_rotate_def qmul_def scalar_first_def z_axis_def)
  have r2: "(quat_rotate (scalar_first (2, 0, 0, 0)) \<circ> quat_rotate (1 / 2, 1 / 2, 1 / 2, 1 / 2)) z_axis
       = (1, 0, 0)"
    by (simp add: quat_rotate_def qmul_def scalar_first_def z_axis_def)
  have y: "reconstruct (scan_of [(''a'', [3, 5])]) ''a'' [3, 5] = [3, 5]"
    by (simp add: reconstruct_def scan_of_def)
  from pointing_is_boresight_after_offset [OF scan_of_fields from_quats_boresight2
      Process_scan_flip, of "''a''" "[3, 5]"] r1 r2
  show ?thesis
    by (simp add: Process_scan_flip d y boresight2_def pointing_flip)
qed

lemma tiny_negative_angle:
  assumes "0 < vx" and "vy / vx = - (1 / 2 ^ 100)"
  shows "fst (spec_radec (vx, vy, vz)) = 360"
proof -
  define a where "a = degrees (arctan2 vy vx)"
  have at: "arctan2 vy vx = - arctan (1 / 2 ^ 100)"
    using assms by (simp add: arctan2_def arctan_minus)
  have pos: "0 < arctan (1 / 2 ^ 100 :: real)" by simp
  have le: "arctan (1 / 2 ^ 100 :: real) \<le> 1 / 2 ^ 100"
    by (rule arctan_le_self) simp
  have "a = - (arctan (1 / 2 ^ 100) * (180 / pi))"
    by (simp add: a_def at degrees_def)
  moreover have "0 < arctan (1 / 2 ^ 100) * (180 / pi)"
    using pos pi_gt_zero by simp
  moreover have "arctan (1 / 2 ^ 100) * (180 / pi) \<le> 1 / 2 ^ 45"
  proof -
    have "180 / pi \<le> 90" using pi_ge_two by (simp add: field_simps)
    then have "arctan (1 / 2 ^ 100) * (180 / pi) \<le> (1 / 2 ^ 100) * 90"
      using le pos by (intro mult_mono) simp_all
    also have "\<dots> \<le> 1 / 2 ^ 45" by simp
    finally show ?thesis .
  qed
  ultimately have "- (1 / 2 ^ 45) \<le> a" "a < 0" by simp_all
  then have "wrap360 a = 360"
    using fl_360_tiny [of a] by (simp add: wrap360_def)
  then show ?thesis by (simp add: spec_radec_def a_def)
qed

theorem ra_reaches_360_counterexample:
  "\<not> isl (from_quats (map scalar_last seam_boresight))
   \<and> map fst (projr (detector_radec (projr (from_quats (map scalar_last seam_boresight)))
                      (0, 0, 0, 1))) = [360]"
proof -
  have "list_all (\<lambda>q. quat_norm q \<noteq> 0) (map scalar_last seam_boresight)"
    by (simp add: seam_boresight_def scalar_last_def quat_norm_def)
  then obtain br where br: "from_quats (map scalar_last seam_boresight) = Inr br"
    using from_quats_nonzero by blast
  have d: "from_quat (0, 0, 0, 1) = Inr (0, 0, 0, 1)"
    by (simp add: from_quat_def quat_norm_def)
  have "fst (pointing (1, 1 / 2 ^ 100, 1, 0) (0, 0, 0, 1)) = 360"
    unfolding pointing_def
    by (simp add: quat_rotate_def qmul_def scalar_first_def z_axis_def tiny_negative_angle)
  with detector_radec_pointing [OF br d] br show ?thesis
    by (simp add: seam_boresight_def)
qed

subsection \<open>Construction\<close>

lemma exponent_eq_abs:
  assumes "2 powr of_int e \<le> \<bar>x\<bar>" and "\<bar>x\<bar> < 2 powr (of_int e + 1)" and "- 1022 \<le> e"
  shows "max \<lfloor>log 2 \<bar>x\<bar>\<rfloor> (- 1022) = e"
  using exponent_eq [of e "\<bar>x\<bar>"] assms by simp

lemma round_float64_exact:
  assumes "2 powr of_int e \<le> \<bar>x\<bar>" and "\<bar>x\<bar> < 2 powr (of_int e + 1)" and "- 1022 \<le> e"
    and "x / 2 powr (of_int e - 52) = of_int n"
  shows "round_float64 x = x"
proof -
  have "0 < (2::real) powr of_int e" by simp
  with assms(1) have x: "x \<noteq> 0" by auto
  have e: "max \<lfloor>log 2 \<bar>x\<bar>\<rfloor> (- 1022) = e" using assms(1-3) by (rule exponent_eq_abs)
  have "round_float64 x = 2 powr (of_int e - 52) * of_int (round_half_even (x / 2 powr (of_int e - 52)))"
    using x e by (simp add: round_float64_def Let_def)
  also have "\<dots> = 2 powr (of_int e - 52) * (x / 2 powr (of_int e - 52))"
    by (simp add: assms(4) round_half_even_of_int)
  also have "\<dots> = x" by simp
  finally show ?thesis .
qed

lemma round_float64_values:
  "round_float64 0 = 0"
  "round_float64 1 = 1" "round_float64 (- 1) = - 1"
  "round_float64 2 = 2"
  "round_float64 (1 / 2) = 1 / 2" "round_float64 (- (1 / 2)) = - (1 / 2)"
  "round_float64 (1 / 4) = 1 / 4"
  "round_float64 (1 / 8) = 1 / 8" "round_float64 (- (1 / 8)) = - (1 / 8)"
proof -
  show "round_float64 0 = 0" by (simp add: round_float64_def)
  show "round_float64 1 = 1"
    by (rule round_float64_exact [where e = 0 and n = "2 ^ 52"]) (simp_all add: powr_neg_numeral)
  show "round_float64 (- 1) = - 1"
    by (rule round_float64_exact [where e = 0 and n = "- (2 ^ 52)"]) (simp_all add: powr_neg_numeral)
  show "round_float64 2 = 2"
    by (rule round_float64_exact [where e = 1 and n = "2 ^ 52"]) (simp_all add: powr_neg_numeral)
  show "round_float64 (1 / 2) = 1 / 2"
    by (rule round_float64_exact [where e = "- 1" and n = "2 ^ 52"]) (simp_all add: powr_neg_numeral)
  show "round_float64 (- (1 / 2)) = - (1 / 2)"
    by (rule round_float64_exact [where e = "- 1" and n = "- (2 ^ 52)"]) (simp_all add: powr_neg_numeral)
  show "round_float64 (1 / 4) = 1 / 4"
    by (rule round_float64_exact [where e = "- 2" and n = "2 ^ 52"]) (simp_all add: powr_neg_numeral)
  show "round_float64 (1 / 8) = 1 / 8"
    by (rule round_float64_exact [where e = "- 3" and n = "2 ^ 52"]) (simp_all add: powr_neg_numeral)
  show "round_float64 (- (1 / 8)) = - (1 / 8)"
    by (rule round_float64_exact [where e = "- 3" and n = "- (2 ^ 52)"]) (simp_all add: powr_neg_numeral)
qed

lemma round_float64_ge_1:
  assumes "1 \<le> y"
  shows "1 \<le> round_float64 y"
proof -
  define e where "e = \<lfloor>log 2 y\<rfloor>"
  define u :: real where "u = 2 powr (of_int e - 52)"
  have y0: "0 < y" "y \<noteq> 0" "\<bar>y\<bar> = y" using assms by simp_all
  have "0 \<le> log 2 y" using assms by simp
  then have e0: "0 \<le> e" by (simp add: e_def)
  have lo: "2 powr of_int e \<le> y"
    using floor_log_eq_powr_iff [of y 2 e] y0 by (simp add: e_def)
  have u: "0 < u" by (simp add: u_def)
  have fl: "round_float64 y = u * of_int (round_half_even (y / u))"
    using y0 e0 by (simp add: round_float64_def Let_def e_def [symmetric] u_def max_def)
  have pu: "2 powr of_int e = of_int (2 ^ 52) * u"
    by (simp add: u_def powr_diff)
  from lo u have "of_int (2 ^ 52) \<le> y / u"
    by (simp add: pu pos_le_divide_eq)
  then have "2 ^ 52 \<le> round_half_even (y / u)" by (rule round_half_even_ge)
  then have "of_int (2 ^ 52) * u \<le> u * of_int (round_half_even (y / u))"
    using u by (simp add: mult.commute)
  then have "2 powr of_int e \<le> round_float64 y"
    unfolding fl pu .
  moreover have "1 \<le> 2 powr (of_int e :: real)"
    using e0 by (simp add: ge_one_powr_ge_zero)
  ultimately show ?thesis by linarith
qed

lemma py_int_ge_1: "0 < r \<Longrightarrow> r \<le> xl \<Longrightarrow> 1 \<le> py_int (round_float64 (xl / r))"
proof -
  assume "0 < r" "r \<le> xl"
  then have "1 \<le> xl / r" by simp
  then have "1 \<le> round_float64 (xl / r)" by (rule round_float64_ge_1)
  then show ?thesis by (simp add: py_int_def le_floor_iff)
qed

lemma linspace_length: "linspace start stop num = Inr ys \<Longrightarrow> length ys = nat num"
  by (auto simp: linspace_def Let_def split: if_splits)

lemma init_Inr:
  assumes "init a b xl yl r = Inr acc"
  shows "r \<noteq> 0 \<and> \<not> float_overflows (xl / r) \<and> \<not> float_overflows (yl / r)
       \<and> nx acc = py_int (round_float64 (xl / r)) \<and> ny acc = py_int (round_float64 (yl / r))
       \<and> 0 \<le> nx acc \<and> 0 \<le> ny acc
       \<and> length (ra_edges acc) = nat (nx acc) + 1 \<and> length (dec_edges acc) = nat (ny acc) + 1
       \<and> sky_map acc = replicate (nat (ny acc)) (replicate (nat (nx acc)) 0)
       \<and> hits_map acc = replicate (nat (ny acc)) (replicate (nat (nx acc)) 0)
       \<and> det_offset_dict acc = Map.empty"
  using assms
  by (auto simp: init_def np_zeros_def Let_def nat_add_distrib
      split: if_splits sum.splits dest!: linspace_length)

lemma init_acc_ok:
  assumes "init a b xl yl r = Inr acc"
  shows "acc_ok acc"
proof -
  note r = init_Inr [OF assms]
  from r have "ra_edges acc \<noteq> []" "dec_edges acc \<noteq> []" by auto
  with r show ?thesis
    by (simp add: acc_ok_def grid_shape_def list_all_iff)
qed

text \<open>
  Claim C5, as amended.  Construction checks nothing itself and knows no configuration
  error.  It fails with \<^verbatim>\<open>ZeroDivisionError\<close> when the resolution is zero, with
  \<^verbatim>\<open>OverflowError\<close> when a quotient \<^verbatim>\<open>xlen / res\<close> or \<^verbatim>\<open>ylen / res\<close> overflows, and it fails
  when \<^verbatim>\<open>int(xlen / res)\<close> or \<^verbatim>\<open>int(ylen / res)\<close> is negative; a count of zero rows or
  columns, and a negative resolution with negative extents, are accepted.  A constructed
  accumulator has the counts \<^verbatim>\<open>int(xlen / res)\<close> and \<^verbatim>\<open>int(ylen / res)\<close> of the float
  quotients, both \<open>\<ge> 0\<close>, one edge more than bins on each axis, zero grids of that shape
  and an empty offset table; it has at least one column (row) when
  \<open>0 < res \<le> xlen\<close> (\<open>0 < res \<le> ylen\<close>).
\<close>

theorem construction_outcomes:
  "(res' = 0 \<longrightarrow> init ra0' dec0' xlen' ylen' res' = Inl ZeroDivisionError)
   \<and> (res' \<noteq> 0 \<and> (float_overflows (xlen' / res') \<or> float_overflows (ylen' / res'))
        \<longrightarrow> init ra0' dec0' xlen' ylen' res' = Inl OverflowError)
   \<and> (res' \<noteq> 0 \<and> (py_int (round_float64 (xlen' / res')) < 0
                    \<or> py_int (round_float64 (ylen' / res')) < 0)
        \<longrightarrow> isl (init ra0' dec0' xlen' ylen' res'))
   \<and> (init ra0' dec0' xlen' ylen' res' = Inr acc \<longrightarrow>
        res' \<noteq> 0
        \<and> nx acc = py_int (round_float64 (xlen' / res'))
        \<and> ny acc = py_int (round_float64 (ylen' / res'))
        \<and> 0 \<le> nx acc \<and> 0 \<le> ny acc
        \<and> length (ra_edges acc) = nat (nx acc) + 1 \<and> length (dec_edges acc) = nat (ny acc) + 1
        \<and> sky_map acc = replicate (nat (ny acc)) (replicate (nat (nx acc)) 0)
        \<and> hits_map acc = replicate (nat (ny acc)) (replicate (nat (nx acc)) 0)
        \<and> det_offset_dict acc = Map.empty
        \<and> acc_ok acc
        \<and> (0 < res' \<and> res' \<le> xlen' \<longrightarrow> 1 \<le> nx acc)
        \<and> (0 < res' \<and> res' \<le> ylen' \<longrightarrow> 1 \<le> ny acc))"
proof (intro conjI impI)
  show "init ra0' dec0' xlen' ylen' res' = Inl ZeroDivisionError" if "res' = 0"
    using that by (simp add: init_def)
  show "init ra0' dec0' xlen' ylen' res' = Inl OverflowError"
    if "res' \<noteq> 0 \<and> (float_overflows (xlen' / res') \<or> float_overflows (ylen' / res'))"
    using that by (auto simp: init_def)
  show "isl (init ra0' dec0' xlen' ylen' res')"
    if "res' \<noteq> 0 \<and> (py_int (round_float64 (xlen' / res')) < 0
                    \<or> py_int (round_float64 (ylen' / res')) < 0)"
  proof (cases "init ra0' dec0' xlen' ylen' res'")
    case (Inl e)
    then show ?thesis by simp
  next
    case (Inr a)
    from init_Inr [OF this] that show ?thesis by auto
  qed
next
  assume ok: "init ra0' dec0' xlen' ylen' res' = Inr acc"
  note r = init_Inr [OF ok]
  from r show "res' \<noteq> 0" "nx acc = py_int (round_float64 (xlen' / res'))"
    "ny acc = py_int (round_float64 (ylen' / res'))" "0 \<le> nx acc" "0 \<le> ny acc"
    "length (ra_edges acc) = nat (nx acc) + 1" "length (dec_edges acc) = nat (ny acc) + 1"
    "sky_map acc = replicate (nat (ny acc)) (replicate (nat (nx acc)) 0)"
    "hits_map acc = replicate (nat (ny acc)) (replicate (nat (nx acc)) 0)"
    "det_offset_dict acc = Map.empty"
    by simp_all
  show "acc_ok acc" using ok by (rule init_acc_ok)
  show "1 \<le> nx acc" if "0 < res' \<and> res' \<le> xlen'"
    using that r by (simp add: py_int_ge_1)
  show "1 \<le> ny acc" if "0 < res' \<and> res' \<le> ylen'"
    using that r by (simp add: py_int_ge_1)
qed

lemma not_float_overflows_small: "\<bar>x\<bar> \<le> 2 \<Longrightarrow> \<not> float_overflows x"
  by (simp add: float_overflows_def)

lemma upt_3: "[0..<3] = [0, Suc 0, Suc (Suc 0)]"
  by (simp add: upt_conv_Cons)

lemma linspace_unit: "linspace (- (1 / 2)) (1 / 2) 3 = Inr [- (1 / 2), 0, 1 / 2]"
  by (simp add: linspace_def Let_def upt_3 round_float64_values)

lemma init_acc0: "init 0 0 1 1 (1 / 2) = Inr acc0"
  by (simp add: init_def not_float_overflows_small round_float64_values py_int_def linspace_unit
      np_zeros_def acc0_def Let_def numeral_2_eq_2)

theorem construction_outcomes_witness:
  "init 0 0 1 1 0 = Inl ZeroDivisionError
   \<and> py_int (round_float64 (- 1 / (1 / 2))) < 0
   \<and> isl (init 0 0 1 (- 1) (1 / 2))
   \<and> init 0 0 1 1 (1 / 2) = Inr acc0
   \<and> nx acc0 = py_int (round_float64 (1 / (1 / 2)))
   \<and> 1 \<le> nx acc0 \<and> 1 \<le> ny acc0
   \<and> acc_ok acc0"
  using
    construction_outcomes [where ra0' = 0 and dec0' = 0 and xlen' = 1 and ylen' = 1 and res' = 0]
    construction_outcomes [where ra0' = 0 and dec0' = 0 and xlen' = 1 and ylen' = "- 1"
      and res' = "1 / 2"]
    construction_outcomes [where ra0' = 0 and dec0' = 0 and xlen' = 1 and ylen' = 1
      and res' = "1 / 2" and acc = acc0]
    init_acc0 round_float64_exact [where x = "- 2" and e = 1 and n = "- (2 ^ 52)"]
  by (simp add: py_int_def powr_neg_numeral)

theorem empty_grid_counterexample:
  "\<not> isl (init 0 0 (1 / 4) 1 (1 / 2))
   \<and> nx (projr (init 0 0 (1 / 4) 1 (1 / 2))) = 0
   \<and> sky_map (projr (init 0 0 (1 / 4) 1 (1 / 2))) = [[], []]
   \<and> \<not> isl (init 0 0 (- 1) (- 1) (- (1 / 2)))
   \<and> res (projr (init 0 0 (- 1) (- 1) (- (1 / 2)))) < 0
   \<and> ra_edges (projr (init 0 0 (- 1) (- 1) (- (1 / 2)))) = [1 / 2, 0, - (1 / 2)]"
  by (simp add: init_def not_float_overflows_small round_float64_values py_int_def linspace_def
      np_zeros_def Let_def numeral_2_eq_2 upt_3)

lemma rounded_quotient_example:
  "py_int (1 / (3602879701896397 / 2 ^ 55)) = 9"
  "py_int (round_float64 (1 / (3602879701896397 / 2 ^ 55))) = 10"
proof -
  define q :: real where "q = 1 / (3602879701896397 / 2 ^ 55)"
  have q: "8 \<le> q" "q < 16" "q \<noteq> 0" "9 \<le> q" "q < 10" by (simp_all add: q_def)
  show "py_int (1 / (3602879701896397 / 2 ^ 55)) = 9"
    unfolding q_def [symmetric] using q by (simp add: py_int_def floor_eq_iff)
  have e: "max \<lfloor>log 2 \<bar>q\<bar>\<rfloor> (- 1022) = 3"
    using q by (intro exponent_eq) simp_all
  have fl: "round_float64 q = (1 / 2 ^ 49) * of_int (round_half_even (q * 2 ^ 49))"
    using q(3) e by (simp add: round_float64_def Let_def powr_neg_numeral)
  define d where "d = q * 2 ^ 49 - of_int (10 * 2 ^ 49 - 1)"
  have d: "1 / 2 \<le> d" "d < 1" by (simp_all add: d_def q_def)
  have odd: "odd (10 * 2 ^ 49 - 1 :: int)" by simp
  have "q * 2 ^ 49 = of_int (10 * 2 ^ 49 - 1) + d" by (simp add: d_def)
  then have "round_half_even (q * 2 ^ 49) = (10 * 2 ^ 49 - 1) + 1"
    using round_half_even_upper [OF d odd] by simp
  then have "round_float64 q = 10" by (simp add: fl)
  then show "py_int (round_float64 (1 / (3602879701896397 / 2 ^ 55))) = 10"
    by (simp add: q_def py_int_def)
qed

subsection \<open>The invariant\<close>

lemma histogram2d_shape:
  "histogram2d xs ys xb yb w = Inr h \<Longrightarrow> grid_shape h (length xb - 1) (length yb - 1)"
  by (auto simp: histogram2d_def hist_grid_shape [simplified] split: if_splits option.splits)

lemma bin_detector_keeps_ok:
  assumes "bin_detector acc f br kid y_raw = (acc', r)" and "acc_ok acc"
  shows "acc_ok acc'"
  using assms
  by (auto simp: bin_detector_def Let_def acc_ok_def add_grid_shape astype_int_shape
      split: option.splits sum.splits dest!: histogram2d_shape)

lemma scan_loop_keeps_ok:
  "scan_loop acc f br kids = (acc', r) \<Longrightarrow> acc_ok acc \<Longrightarrow> acc_ok acc'"
proof (induction kids arbitrary: acc)
  case Nil
  then show ?case by simp
next
  case (Cons d kids)
  obtain kid y_raw where d: "d = (kid, y_raw)" by (cases d)
  obtain acc1 r1 where b: "bin_detector acc f br kid y_raw = (acc1, r1)"
    by (cases "bin_detector acc f br kid y_raw")
  note ok1 = bin_detector_keeps_ok [OF b Cons.prems(2)]
  show ?case
  proof (cases r1)
    case None
    with Cons.prems(1) d b have "scan_loop acc1 f br kids = (acc', r)" by simp
    from Cons.IH [OF this ok1] show ?thesis .
  next
    case (Some e)
    with Cons.prems(1) d b have "acc' = acc1" by simp
    with ok1 show ?thesis by simp
  qed
qed

lemma Process_keeps_ok:
  assumes "acc_ok acc"
  shows "acc_ok (fst (Process acc f))"
proof -
  have cal: "acc_ok (acc\<lparr>det_offset_dict := d\<rparr>)" for d
    using assms by (simp add: acc_ok_def)
  show ?thesis
    using assms cal
    by (auto simp: Process_def split: option.splits h5_blob.splits sum.splits prod.splits
        dest: scan_loop_keeps_ok)
qed

end
